theory Spec2Isabelle
  imports Main "HOL-Library.Sublist"
begin

section \<open>The git-backed history store of the config-history operator\<close>

text \<open>
  The development embeds \<^verbatim>\<open>pkg/storage/git_store.go\<close>: the three event handlers
  \<^verbatim>\<open>OnAdd\<close>, \<^verbatim>\<open>OnUpdate\<close>, \<^verbatim>\<open>OnDelete\<close> and the helpers \<^verbatim>\<open>decodeUnstructuredObject\<close>,
  \<^verbatim>\<open>resourceFilename\<close>, \<^verbatim>\<open>commit\<close>, \<^verbatim>\<open>delete\<close>, \<^verbatim>\<open>write\<close>, \<^verbatim>\<open>updateRefsFile\<close>.

  The Go functions are written against go-git, the billy file system of the worktree, the
  files of the operating system, klog and the Kubernetes object codecs. Their calls are
  the primitives of the model:
  every call is appended to a trace, may fail on the word of an oracle, and otherwise has
  the effect its documentation describes on a store made of the working tree, the index,
  the commit history, the reference table and the file \<^verbatim>\<open>.git/info/refs\<close>.
  The mutex of \<^verbatim>\<open>GitStorage\<close> is not modelled: the handlers are run one after the other.
\<close>

subsection \<open>Data\<close>

type_synonym bytes = string
type_synonym hash = string

text \<open>A directory snapshot: path and content of every file, as an association list.\<close>

type_synonym snapshot = "(string \<times> bytes) list"

text \<open>Go errors. \<^verbatim>\<open>os.IsNotExist\<close> tells \<open>NotExist\<close> from every other error.\<close>

datatype error = NotExist | Failure

text \<open>A Go call either returns or panics.\<close>

datatype 'a outcome = Panic | Return 'a

record GroupVersionKind =
  Group :: string
  Version :: string
  Kind :: string

text \<open>
  \<^verbatim>\<open>*unstructured.Unstructured\<close>: the type descriptor read by \<^verbatim>\<open>GroupVersionKind()\<close> and
  the remaining payload, whose shape is left open.
\<close>

record 'p unstructured =
  gvk :: GroupVersionKind
  payload :: 'p

text \<open>
  The argument of a handler has the static type \<^verbatim>\<open>interface{}\<close>: it holds a non-nil
  \<^verbatim>\<open>*unstructured.Unstructured\<close>, or something else, named by a string: a value of another
  dynamic type (the informer's \<^verbatim>\<open>cache.DeletedFinalStateUnknown\<close>), the nil interface, or a
  nil pointer, which passes the type assertion and is dereferenced on the next line.
\<close>

datatype 'p object = Unstructured "'p unstructured" | Foreign string

record signature =
  Name :: string
  Email :: string
  When :: nat

record CommitOptions =
  All :: bool
  Author :: signature
  Committer :: signature

record commit_object =
  ctree :: snapshot
  cparent :: "hash option"
  cauthor :: signature
  ccommitter :: signature
  cmessage :: string

datatype reference = HashReference string hash | SymbolicReference string string

datatype StatusCode = Unmodified | Untracked | Modified | Added | Deleted

record FileStatus =
  Staging :: StatusCode
  Worktree :: StatusCode

text \<open>
  The library calls the handlers make, with the arguments that matter, and the two klog
  calls with their format string and arguments.
\<close>

datatype call =
    CallWorktree
  | CallStatus
  | CallAdd string
  | CallCommit string bool
  | CallLstat string
  | CallCreate string
  | CallWrite string bytes
  | CallClose string
  | CallRemove string
  | CallReferences
  | CallForEach
  | CallMkdirAll
  | CallWriteFile bytes
  | Warningf string string error
  | Infof string string string

record store =
  files :: snapshot
  index :: snapshot
  history :: "commit_object list"
  refs :: "reference list"
  infoRefs :: "bytes option"
  trace :: "call list"

text \<open>
  What the program does not decide: which library call fails (by the call and the number
  of calls made before it), the two codecs, the clock and the hash of a commit object.
\<close>

record 'p env =
  fails :: "call \<Rightarrow> nat \<Rightarrow> bool"
  encode :: "'p unstructured \<Rightarrow> error + bytes"
  jsonToYAML :: "bytes \<Rightarrow> error + bytes"
  now :: "nat \<Rightarrow> nat"
  hashOf :: "commit_object \<Rightarrow> hash"

subsection \<open>Library primitives\<close>

definition perform :: "'p env \<Rightarrow> call \<Rightarrow> store \<Rightarrow> bool \<times> store" where
  "perform env c s = (fails env c (length (trace s)), s\<lparr>trace := trace s @ [c]\<rparr>)"

definition klog :: "call \<Rightarrow> store \<Rightarrow> store" where
  "klog c s = s\<lparr>trace := trace s @ [c]\<rparr>"

definition drop_path :: "string \<Rightarrow> snapshot \<Rightarrow> snapshot" where
  "drop_path name t = filter (\<lambda>e. fst e \<noteq> name) t"

definition put_path :: "string \<Rightarrow> bytes \<Rightarrow> snapshot \<Rightarrow> snapshot" where
  "put_path name content t = drop_path name t @ [(name, content)]"

text \<open>\<^verbatim>\<open>Repository.Worktree()\<close>: fails on a bare repository.\<close>

definition repo_Worktree :: "'p env \<Rightarrow> store \<Rightarrow> error option \<times> store" where
  "repo_Worktree env s =
     (case perform env CallWorktree s of
        (True, s') \<Rightarrow> (Some Failure, s')
      | (False, s') \<Rightarrow> (None, s'))"

text \<open>The billy file system of the worktree.\<close>

definition fs_Lstat :: "'p env \<Rightarrow> string \<Rightarrow> store \<Rightarrow> error option \<times> store" where
  "fs_Lstat env name s =
     (case perform env (CallLstat name) s of
        (True, s') \<Rightarrow> (Some Failure, s')
      | (False, s') \<Rightarrow>
          (if map_of (files s') name = None then (Some NotExist, s') else (None, s')))"

definition fs_Create :: "'p env \<Rightarrow> string \<Rightarrow> store \<Rightarrow> error option \<times> store" where
  "fs_Create env name s =
     (case perform env (CallCreate name) s of
        (True, s') \<Rightarrow> (Some Failure, s')
      | (False, s') \<Rightarrow> (None, s'\<lparr>files := put_path name [] (files s')\<rparr>))"

definition fs_Write :: "'p env \<Rightarrow> string \<Rightarrow> bytes \<Rightarrow> store \<Rightarrow> error option \<times> store" where
  "fs_Write env name content s =
     (case perform env (CallWrite name content) s of
        (True, s') \<Rightarrow> (Some Failure, s')
      | (False, s') \<Rightarrow> (None, s'\<lparr>files := put_path name content (files s')\<rparr>))"

definition fs_Close :: "'p env \<Rightarrow> string \<Rightarrow> store \<Rightarrow> error option \<times> store" where
  "fs_Close env name s =
     (case perform env (CallClose name) s of
        (True, s') \<Rightarrow> (Some Failure, s')
      | (False, s') \<Rightarrow> (None, s'))"

definition fs_Remove :: "'p env \<Rightarrow> string \<Rightarrow> store \<Rightarrow> error option \<times> store" where
  "fs_Remove env name s =
     (case perform env (CallRemove name) s of
        (True, s') \<Rightarrow> (Some Failure, s')
      | (False, s') \<Rightarrow>
          (if map_of (files s') name = None then (Some NotExist, s')
           else (None, s'\<lparr>files := drop_path name (files s')\<rparr>)))"

text \<open>The tree of the last commit; empty before the first one.\<close>

fun lastTree :: "commit_object list \<Rightarrow> snapshot" where
  "lastTree [] = []"
| "lastTree (c # cs) = ctree (last (c # cs))"

definition headTree :: "store \<Rightarrow> snapshot" where
  "headTree s = lastTree (history s)"

text \<open>The hash of the last commit, the parent of the next one; none before the first.\<close>

fun headHash :: "(commit_object \<Rightarrow> hash) \<Rightarrow> commit_object list \<Rightarrow> hash option" where
  "headHash hf [] = None"
| "headHash hf (c # cs) = Some (hf (last (c # cs)))"

definition stagingCode :: "bytes option \<Rightarrow> bytes option \<Rightarrow> StatusCode" where
  "stagingCode h i =
     (case (h, i) of
        (None, None) \<Rightarrow> Untracked
      | (None, Some _) \<Rightarrow> Added
      | (Some _, None) \<Rightarrow> Deleted
      | (Some a, Some b) \<Rightarrow> (if a = b then Unmodified else Modified))"

definition worktreeCode :: "bytes option \<Rightarrow> bytes option \<Rightarrow> StatusCode" where
  "worktreeCode i w =
     (case (i, w) of
        (None, None) \<Rightarrow> Unmodified
      | (None, Some _) \<Rightarrow> Untracked
      | (Some _, None) \<Rightarrow> Deleted
      | (Some a, Some b) \<Rightarrow> (if a = b then Unmodified else Modified))"

definition knownPaths :: "store \<Rightarrow> string list" where
  "knownPaths s = remdups (map fst (headTree s) @ map fst (index s) @ map fst (files s))"

text \<open>
  \<^verbatim>\<open>Worktree.Status()\<close>: for every path of the last commit, the index or the working
  tree, the index against the last commit (\<open>Staging\<close>) and the working tree against the
  index (\<open>Worktree\<close>). A path that is only in the working tree is \<open>Untracked\<close> on both sides.
\<close>

definition fileStatus :: "store \<Rightarrow> string \<Rightarrow> FileStatus" where
  "fileStatus s p =
     \<lparr>Staging = stagingCode (map_of (headTree s) p) (map_of (index s) p),
      Worktree = worktreeCode (map_of (index s) p) (map_of (files s) p)\<rparr>"

definition statusOf :: "store \<Rightarrow> (string \<times> FileStatus) list" where
  "statusOf s = map (\<lambda>p. (p, fileStatus s p)) (knownPaths s)"

definition wt_Status :: "'p env \<Rightarrow> store \<Rightarrow> (error + (string \<times> FileStatus) list) \<times> store" where
  "wt_Status env s =
     (case perform env CallStatus s of
        (True, s') \<Rightarrow> (Inl Failure, s')
      | (False, s') \<Rightarrow> (Inr (statusOf s'), s'))"

text \<open>\<^verbatim>\<open>Status.IsClean()\<close>: every listed path is unmodified on both sides.\<close>

definition IsClean :: "(string \<times> FileStatus) list \<Rightarrow> bool" where
  "IsClean status =
     list_all (\<lambda>e. Worktree (snd e) = Unmodified \<and> Staging (snd e) = Unmodified) status"

text \<open>
  \<^verbatim>\<open>Worktree.Add(path)\<close>: the index takes the path's present state in the working tree,
  its content or its absence.
\<close>

definition stage :: "snapshot \<Rightarrow> string \<Rightarrow> snapshot \<Rightarrow> snapshot" where
  "stage wt p idx =
     (case map_of wt p of None \<Rightarrow> drop_path p idx | Some c \<Rightarrow> put_path p c idx)"

definition wt_Add :: "'p env \<Rightarrow> string \<Rightarrow> store \<Rightarrow> error option \<times> store" where
  "wt_Add env name s =
     (case perform env (CallAdd name) s of
        (True, s') \<Rightarrow> (Some Failure, s')
      | (False, s') \<Rightarrow> (None, s'\<lparr>index := stage (files s') name (index s')\<rparr>))"

text \<open>
  The option \<^verbatim>\<open>All\<close> of \<^verbatim>\<open>Worktree.Commit\<close>, in the words of go-git:
  ``All automatically stage files that have been modified and deleted, but new files you
  have not told Git about are not affected.'' Every path of the index whose working-tree
  state differs is staged; a path outside the index is left alone.
\<close>

definition autoAddModifiedAndDeleted :: "snapshot \<Rightarrow> snapshot \<Rightarrow> snapshot" where
  "autoAddModifiedAndDeleted wt idx =
     foldl (\<lambda>acc p. if worktreeCode (map_of idx p) (map_of wt p) = Modified \<or>
                        worktreeCode (map_of idx p) (map_of wt p) = Deleted
                     then stage wt p acc else acc)
           idx (remdups (map fst idx))"

text \<open>
  \<^verbatim>\<open>updateHEAD\<close> of go-git: the new commit is stored under the branch that the symbolic
  reference \<^verbatim>\<open>HEAD\<close> names, or under \<^verbatim>\<open>HEAD\<close> itself when it is not symbolic.
\<close>

fun refName :: "reference \<Rightarrow> string" where
  "refName (HashReference n _) = n"
| "refName (SymbolicReference n _) = n"

fun headTarget :: "reference list \<Rightarrow> string" where
  "headTarget [] = ''HEAD''"
| "headTarget (SymbolicReference n t # rs) = (if n = ''HEAD'' then t else headTarget rs)"
| "headTarget (HashReference n h # rs) = (if n = ''HEAD'' then ''HEAD'' else headTarget rs)"

definition updateHEAD :: "hash \<Rightarrow> reference list \<Rightarrow> reference list" where
  "updateHEAD h rs =
     filter (\<lambda>r. refName r \<noteq> headTarget rs) rs @ [HashReference (headTarget rs) h]"

text \<open>
  \<^verbatim>\<open>Worktree.Commit(message, options)\<close>: stages as \<^verbatim>\<open>All\<close> asks, then records the index
  as a new commit on top of the last one and moves the branch to it.
\<close>

definition wt_Commit ::
  "'p env \<Rightarrow> string \<Rightarrow> CommitOptions \<Rightarrow> store \<Rightarrow> (error + hash) \<times> store" where
  "wt_Commit env message opts s =
     (case perform env (CallCommit message (All opts)) s of
        (True, s') \<Rightarrow> (Inl Failure, s')
      | (False, s') \<Rightarrow>
          (let idx = (if All opts then autoAddModifiedAndDeleted (files s') (index s')
                      else index s');
               c = \<lparr>ctree = idx,
                    cparent = headHash (hashOf env) (history s'),
                    cauthor = Author opts,
                    ccommitter = Committer opts,
                    cmessage = message\<rparr>;
               h = hashOf env c
           in (Inr h, s'\<lparr>index := idx, history := history s' @ [c],
                         refs := updateHEAD h (refs s')\<rparr>)))"

text \<open>
  \<^verbatim>\<open>Repository.References()\<close> returns the iterator, or the nil iterator with an error.
\<close>

definition repo_References ::
  "'p env \<Rightarrow> store \<Rightarrow> (reference list option \<times> error option) \<times> store" where
  "repo_References env s =
     (case perform env CallReferences s of
        (True, s') \<Rightarrow> ((None, Some Failure), s')
      | (False, s') \<Rightarrow> ((Some (refs s'), None), s'))"

text \<open>
  \<^verbatim>\<open>ReferenceIter.ForEach(cb)\<close> on a non-nil iterator: the callback is run on every
  reference in turn; the handlers' callback always returns nil, so the only error is the
  iterator's own.
\<close>

definition iter_ForEach ::
  "'p env \<Rightarrow> reference list \<Rightarrow> (reference \<Rightarrow> 'a \<Rightarrow> 'a) \<Rightarrow> 'a \<Rightarrow> store \<Rightarrow> (error + 'a) \<times> store" where
  "iter_ForEach env it cb acc s =
     (case perform env CallForEach s of
        (True, s') \<Rightarrow> (Inl Failure, s')
      | (False, s') \<Rightarrow> (Inr (foldl (\<lambda>a r. cb r a) acc it), s'))"

definition os_MkdirAll :: "'p env \<Rightarrow> store \<Rightarrow> error option \<times> store" where
  "os_MkdirAll env s =
     (case perform env CallMkdirAll s of
        (True, s') \<Rightarrow> (Some Failure, s')
      | (False, s') \<Rightarrow> (None, s'))"

text \<open>\<^verbatim>\<open>ioutil.WriteFile\<close> creates or truncates the file and writes the data.\<close>

definition ioutil_WriteFile :: "'p env \<Rightarrow> bytes \<Rightarrow> store \<Rightarrow> error option \<times> store" where
  "ioutil_WriteFile env data s =
     (case perform env (CallWriteFile data) s of
        (True, s') \<Rightarrow> (Some Failure, s')
      | (False, s') \<Rightarrow> (None, s'\<lparr>infoRefs := Some data\<rparr>))"

text \<open>
  \<^verbatim>\<open>strings.ToLower\<close> on ASCII text: each of the letters \<open>A\<close> to \<open>Z\<close> becomes its
  lower-case letter and every other byte is kept.
\<close>

definition lowerChar :: "char \<Rightarrow> char" where
  "lowerChar c =
     (case map_of (zip ''ABCDEFGHIJKLMNOPQRSTUVWXYZ'' ''abcdefghijklmnopqrstuvwxyz'') c of
        Some l \<Rightarrow> l
      | None \<Rightarrow> c)"

definition ToLower :: "string \<Rightarrow> string" where
  "ToLower s = map lowerChar s"

text \<open>
  The verb \<^verbatim>\<open>%q\<close> of \<^verbatim>\<open>fmt.Sprintf\<close> on printable ASCII text: double quotes around the
  string, a backslash before every double quote and backslash.
\<close>

definition quote :: "string \<Rightarrow> string" where
  "quote s =
     [CHR 0x22] @
     concat (map (\<lambda>c. if c = CHR 0x22 \<or> c = CHR 0x5C then [CHR 0x5C, c] else [c]) s) @
     [CHR 0x22]"

subsection \<open>The functions of the source\<close>

definition resourceFilename :: "GroupVersionKind \<Rightarrow> string" where
  "resourceFilename g = ToLower (Kind g @ ''.'' @ Version g @ ''.'' @ Group g @ ''.yaml'')"

text \<open>
  \<^verbatim>\<open>obj.(*unstructured.Unstructured)\<close> is the one-result form of the type assertion: it
  panics on any other dynamic type, and \<^verbatim>\<open>GroupVersionKind()\<close> panics on a nil pointer.
\<close>

definition decodeUnstructuredObject ::
  "'p env \<Rightarrow> 'p object \<Rightarrow> (string \<times> bytes \<times> error option) outcome" where
  "decodeUnstructuredObject env obj =
     (case obj of
        Foreign _ \<Rightarrow> Panic
      | Unstructured objUnstructured \<Rightarrow>
          (let filename = resourceFilename (gvk objUnstructured) in
           case encode env objUnstructured of
             Inl err \<Rightarrow> Return (filename, [], Some err)
           | Inr objectBytes \<Rightarrow>
               (case jsonToYAML env objectBytes of
                  Inl err \<Rightarrow> Return (filename, [], Some err)
                | Inr objectYAML \<Rightarrow> Return (filename, objectYAML, None))))"

definition commit ::
  "'p env \<Rightarrow> string \<Rightarrow> string \<Rightarrow> string \<Rightarrow> store \<Rightarrow> (string \<times> error option) \<times> store" where
  "commit env name component message s =
     (case repo_Worktree env s of
        (Some err, s1) \<Rightarrow> (('''', Some err), s1)
      | (None, s1) \<Rightarrow>
     (case wt_Status env s1 of
        (Inl err, s2) \<Rightarrow> (('''', Some err), s2)
      | (Inr status, s2) \<Rightarrow>
     (if IsClean status then (('''', None), s2)
      else
     (case wt_Add env name s2 of
        (Some err, s3) \<Rightarrow> (('''', Some err), s3)
      | (None, s3) \<Rightarrow>
     (case wt_Commit env message
             \<lparr>All = True,
              Author = \<lparr>Name = ''config-history-operator'',
                        Email = ''config-history-operator@openshift.io'',
                        When = now env (length (trace s3))\<rparr>,
              Committer = \<lparr>Name = component,
                           Email = component @ ''@openshift.io'',
                           When = now env (Suc (length (trace s3)))\<rparr>\<rparr> s3 of
        (Inl err, s4) \<Rightarrow> (('''', Some err), s4)
      | (Inr h, s4) \<Rightarrow> ((h, None), s4))))))"

definition delete :: "'p env \<Rightarrow> string \<Rightarrow> store \<Rightarrow> error option \<times> store" where
  "delete env name s =
     (case repo_Worktree env s of
        (Some err, s1) \<Rightarrow> (Some err, s1)
      | (None, s1) \<Rightarrow> fs_Remove env name s1)"

text \<open>
  The method \<^verbatim>\<open>write\<close> (\<open>write\<close> is a keyword of Isabelle, hence the prime). It calls
  itself once more after removing an existing file.
\<close>

function write' :: "'p env \<Rightarrow> string \<Rightarrow> bytes \<Rightarrow> store \<Rightarrow> error option \<times> store" where
  "write' env name content s =
     (case repo_Worktree env s of
        (Some err, s1) \<Rightarrow> (Some err, s1)
      | (None, s1) \<Rightarrow>
     (case fs_Lstat env name s1 of
        (Some err, s2) \<Rightarrow>
          (if err \<noteq> NotExist then (Some err, s2)
           else
             (case fs_Create env name s2 of
                (Some err', s3) \<Rightarrow> (Some err', s3)
              | (None, s3) \<Rightarrow>
             (case fs_Write env name content s3 of
                (Some err', s4) \<Rightarrow> (Some err', s4)
              | (None, s4) \<Rightarrow> fs_Close env name s4)))
      | (None, s2) \<Rightarrow>
     (case delete env name s2 of
        (Some err, s3) \<Rightarrow> (Some err, s3)
      | (None, s3) \<Rightarrow> write' env name content s3)))"
  by pat_completeness auto

termination write'
  apply (relation "measure (\<lambda>(env, name, content, s). if map_of (files s) name = None then 0 else 1)")
   apply simp
  apply (auto simp: delete_def repo_Worktree_def fs_Lstat_def fs_Remove_def perform_def
      drop_path_def map_of_eq_None_iff split: prod.splits bool.splits if_splits option.splits)
  done

declare write'.simps [simp del]

text \<open>
  The callback of \<^verbatim>\<open>updateRefsFile\<close>: \<^verbatim>\<open>ref.Strings()\<close> is the name followed by the
  target, and the line is \<^verbatim>\<open>s[1]\<close>, a tab, \<^verbatim>\<open>s[0]\<close>, a newline.
\<close>

fun refLine :: "reference \<Rightarrow> bytes \<Rightarrow> bytes" where
  "refLine (HashReference n h) data = data @ h @ [CHR 0x09] @ n @ [CHR 0x0A]"
| "refLine (SymbolicReference n t) data = data"

text \<open>
  \<^verbatim>\<open>updateRefsFile\<close> drops the error of \<^verbatim>\<open>References()\<close> and calls \<^verbatim>\<open>ForEach\<close> on the
  iterator it got: on the nil iterator that method call is a nil dereference, which panics.
\<close>

definition updateRefsFile :: "'p env \<Rightarrow> store \<Rightarrow> unit outcome \<times> store" where
  "updateRefsFile env s =
     (case repo_References env s of
        ((None, _), s1) \<Rightarrow> (Panic, s1)
      | ((Some it, _), s1) \<Rightarrow>
     (case iter_ForEach env it refLine [] s1 of
        (Inl err, s2) \<Rightarrow> (Panic, s2)
      | (Inr data, s2) \<Rightarrow>
     (case os_MkdirAll env s2 of
        (Some err, s3) \<Rightarrow> (Panic, s3)
      | (None, s3) \<Rightarrow>
     (case ioutil_WriteFile env data s3 of
        (Some err, s4) \<Rightarrow> (Panic, s4)
      | (None, s4) \<Rightarrow> (Return (), s4)))))"

definition OnAdd :: "'p env \<Rightarrow> 'p object \<Rightarrow> store \<Rightarrow> unit outcome \<times> store" where
  "OnAdd env obj s =
     (case decodeUnstructuredObject env obj of
        Panic \<Rightarrow> (Panic, s)
      | Return (name, content, Some err) \<Rightarrow>
          (Return (), klog (Warningf ''Unable to decode %q: %v'' name err) s)
      | Return (name, content, None) \<Rightarrow>
     (case write' env name content s of
        (Some err, s1) \<Rightarrow>
          (Return (), klog (Warningf ''Unable to write file %q: %v'' name err) s1)
      | (None, s1) \<Rightarrow>
     (case commit env name ''operator'' (name @ '' added'') s1 of
        ((h, err), s2) \<Rightarrow>
     (let s3 = (case err of
                  Some e \<Rightarrow> klog (Warningf ''Unable to commit file %q: %v'' name e) s2
                | None \<Rightarrow> s2) in
      case updateRefsFile env s3 of
        (Panic, s4) \<Rightarrow> (Panic, s4)
      | (Return _, s4) \<Rightarrow> (Return (), klog (Infof ''Added %q in commit %q'' name h) s4)))))"

definition OnUpdate :: "'p env \<Rightarrow> 'p object \<Rightarrow> 'p object \<Rightarrow> store \<Rightarrow> unit outcome \<times> store" where
  "OnUpdate env old obj s =
     (case decodeUnstructuredObject env obj of
        Panic \<Rightarrow> (Panic, s)
      | Return (name, content, Some err) \<Rightarrow>
          (Return (), klog (Warningf ''Unable to decode %q: %v'' name err) s)
      | Return (name, content, None) \<Rightarrow>
     (case write' env name content s of
        (Some err, s1) \<Rightarrow>
          (Return (), klog (Warningf ''Unable to write file %q: %v'' name err) s1)
      | (None, s1) \<Rightarrow>
     (case commit env name ''operator'' (name @ '' modified'') s1 of
        ((h, err), s2) \<Rightarrow>
     (let s3 = (case err of
                  Some e \<Rightarrow> klog (Warningf ''Unable to commit file %q: %v'' name e) s2
                | None \<Rightarrow> s2) in
      case updateRefsFile env s3 of
        (Panic, s4) \<Rightarrow> (Panic, s4)
      | (Return _, s4) \<Rightarrow> (Return (), klog (Infof ''Updated %q in commit %q'' name h) s4)))))"

definition OnDelete :: "'p env \<Rightarrow> 'p object \<Rightarrow> store \<Rightarrow> unit outcome \<times> store" where
  "OnDelete env obj s =
     (case decodeUnstructuredObject env obj of
        Panic \<Rightarrow> (Panic, s)
      | Return (name, content, Some err) \<Rightarrow>
          (Return (), klog (Warningf ''Unable to decode %q: %v'' name err) s)
      | Return (name, content, None) \<Rightarrow>
     (case delete env name s of
        (Some err, s1) \<Rightarrow>
          (Return (), klog (Warningf ''Unable to delete file %q: %v'' name err) s1)
      | (None, s1) \<Rightarrow>
     (case commit env name ''operator'' (quote name @ '' removed'') s1 of
        ((h, err), s2) \<Rightarrow>
     (let s3 = (case err of
                  Some e \<Rightarrow> klog (Warningf ''Unable to commit file %q: %v'' name e) s2
                | None \<Rightarrow> s2) in
      case updateRefsFile env s3 of
        (Panic, s4) \<Rightarrow> (Panic, s4)
      | (Return _, s4) \<Rightarrow> (Return (), klog (Infof ''Deleted %q in commit %q'' name h) s4)))))"

subsection \<open>Runs of events\<close>

text \<open>
  The informer calls the handlers one event at a time. A panic ends the process, so a run
  stops there; what is on disk stays as the panicking handler left it.
\<close>

datatype 'p event = Observed "'p object" | Changed "'p object" "'p object" | Removed "'p object"

fun handle :: "'p env \<Rightarrow> 'p event \<Rightarrow> store \<Rightarrow> unit outcome \<times> store" where
  "handle env (Observed obj) s = OnAdd env obj s"
| "handle env (Changed old obj) s = OnUpdate env old obj s"
| "handle env (Removed obj) s = OnDelete env obj s"

fun run :: "'p env \<Rightarrow> 'p event list \<Rightarrow> store \<Rightarrow> unit outcome \<times> store" where
  "run env [] s = (Return (), s)"
| "run env (e # es) s =
     (case handle env e s of
        (Panic, s') \<Rightarrow> (Panic, s')
      | (Return _, s') \<Rightarrow> run env es s')"

text \<open>The commit message a handler asks for, when its object decodes.\<close>

fun messageOf :: "'p event \<Rightarrow> string" where
  "messageOf (Observed obj) =
     (case obj of Unstructured u \<Rightarrow> resourceFilename (gvk u) @ '' added'' | Foreign _ \<Rightarrow> [])"
| "messageOf (Changed old obj) =
     (case obj of Unstructured u \<Rightarrow> resourceFilename (gvk u) @ '' modified'' | Foreign _ \<Rightarrow> [])"
| "messageOf (Removed obj) =
     (case obj of Unstructured u \<Rightarrow> quote (resourceFilename (gvk u)) @ '' removed''
      | Foreign _ \<Rightarrow> [])"

text \<open>
  The store that \<^verbatim>\<open>git.PlainInit\<close> leaves behind: no file, no commit, and the symbolic
  reference \<^verbatim>\<open>HEAD\<close> to the branch \<^verbatim>\<open>master\<close>.
\<close>

definition emptyRepository :: store where
  "emptyRepository =
     \<lparr>files = [], index = [], history = [],
      refs = [SymbolicReference ''HEAD'' ''refs/heads/master''],
      infoRefs = None, trace = []\<rparr>"

text \<open>The calls a function added to the trace.\<close>

definition newCalls :: "store \<Rightarrow> store \<Rightarrow> call list" where
  "newCalls s s' = drop (length (trace s)) (trace s')"

text \<open>Environments for concrete runs: identity codecs, and a chosen set of failing calls.\<close>

definition noFailure :: "call \<Rightarrow> nat \<Rightarrow> bool" where
  "noFailure c n = False"

definition failCall :: "call \<Rightarrow> call \<Rightarrow> nat \<Rightarrow> bool" where
  "failCall c0 c n = (c = c0)"

definition testEnv :: "(call \<Rightarrow> nat \<Rightarrow> bool) \<Rightarrow> string env" where
  "testEnv f =
     \<lparr>fails = f, encode = (\<lambda>u. Inr (payload u)), jsonToYAML = (\<lambda>b. Inr b),
      now = (\<lambda>n. n), hashOf = (\<lambda>c. ''commit:'' @ cmessage c)\<rparr>"

definition configMap :: "string \<Rightarrow> string object" where
  "configMap content =
     Unstructured \<lparr>gvk = \<lparr>Group = [], Version = ''v1'', Kind = ''ConfigMap''\<rparr>,
                   payload = content\<rparr>"

definition secret :: "string \<Rightarrow> string object" where
  "secret content =
     Unstructured \<lparr>gvk = \<lparr>Group = [], Version = ''v1'', Kind = ''Secret''\<rparr>,
                   payload = content\<rparr>"

definition okEnv :: "string env" where
  "okEnv = testEnv noFailure"

text \<open>A working tree that holds a long snapshot of the config map, never committed.\<close>

definition longStore :: store where
  "longStore = emptyRepository\<lparr>files := [(''configmap.v1..yaml'', ''key: a long value'')]\<rparr>"

text \<open>
  The reference index in the words of the specification: one line for every direct
  reference, the hash, a tab, the name, a newline; nothing for a symbolic reference.
\<close>

definition indexLines :: "reference list \<Rightarrow> bytes" where
  "indexLines rs = concat [h @ [CHR 0x09] @ n @ [CHR 0x0A]. HashReference n h \<leftarrow> rs]"

text \<open>None of the four library calls of \<^verbatim>\<open>updateRefsFile\<close> ever fails.\<close>

definition indexCallsSucceed :: "'p env \<Rightarrow> bool" where
  "indexCallsSucceed env =
     (\<forall>n. \<not> fails env CallReferences n \<and> \<not> fails env CallForEach n \<and>
          \<not> fails env CallMkdirAll n \<and> (\<forall>d. \<not> fails env (CallWriteFile d) n))"

text \<open>An environment whose JSON encoder rejects every object.\<close>

definition brokenCodec :: "string env" where
  "brokenCodec = okEnv\<lparr>encode := (\<lambda>u. Inl Failure)\<rparr>"

text \<open>
  A repository with a branch and a tag, whose index file still holds an older, longer
  content.
\<close>

definition taggedStore :: store where
  "taggedStore =
     emptyRepository\<lparr>refs := [SymbolicReference ''HEAD'' ''refs/heads/master'',
                                HashReference ''refs/heads/master'' ''1f0c'',
                                HashReference ''refs/tags/v1'' ''9a3e''],
                       infoRefs := Some ''an older index, longer than the one to come, of a branch long gone''\<rparr>"

text \<open>
  The commit object that \<^verbatim>\<open>commit(name, component, message)\<close> creates from a store when all
  its calls succeed: \<^verbatim>\<open>Add\<close> stages the named path, \<^verbatim>\<open>Commit\<close> with \<^verbatim>\<open>All\<close> stages the
  tracked paths, and the index becomes the tree.
\<close>

definition commitObject :: "'p env \<Rightarrow> string \<Rightarrow> string \<Rightarrow> string \<Rightarrow> store \<Rightarrow> commit_object" where
  "commitObject env name component message s =
     \<lparr>ctree = autoAddModifiedAndDeleted (files s) (stage (files s) name (index s)),
      cparent = headHash (hashOf env) (history s),
      cauthor = \<lparr>Name = ''config-history-operator'',
                 Email = ''config-history-operator@openshift.io'',
                 When = now env (Suc (Suc (Suc (length (trace s)))))\<rparr>,
      ccommitter = \<lparr>Name = component, Email = component @ ''@openshift.io'',
                    When = now env (Suc (Suc (Suc (Suc (length (trace s))))))\<rparr>,
      cmessage = message\<rparr>"

text \<open>The calls of the working-tree writer: the worktree handle and its file system.\<close>

fun workingTreeCall :: "call \<Rightarrow> bool" where
  "workingTreeCall CallWorktree = True"
| "workingTreeCall (CallLstat _) = True"
| "workingTreeCall (CallCreate _) = True"
| "workingTreeCall (CallWrite _ _) = True"
| "workingTreeCall (CallClose _) = True"
| "workingTreeCall (CallRemove _) = True"
| "workingTreeCall _ = False"

text \<open>Index, history, references and index file are the same in both stores.\<close>

definition sameRepository :: "store \<Rightarrow> store \<Rightarrow> bool" where
  "sameRepository s s' =
     (index s' = index s \<and> history s' = history s \<and> refs s' = refs s \<and>
      infoRefs s' = infoRefs s)"

text \<open>The second store's trace is the first one's followed by working-tree calls only.\<close>

definition extendsBy :: "store \<Rightarrow> store \<Rightarrow> bool" where
  "extendsBy s s' = (\<exists>cs. trace s' = trace s @ cs \<and> list_all workingTreeCall cs)"

text \<open>The calls of the commit writer (past the worktree handle) and of the index publisher.\<close>

fun repositoryCall :: "call \<Rightarrow> bool" where
  "repositoryCall CallStatus = True"
| "repositoryCall (CallAdd _) = True"
| "repositoryCall (CallCommit _ _) = True"
| "repositoryCall CallReferences = True"
| "repositoryCall CallForEach = True"
| "repositoryCall CallMkdirAll = True"
| "repositoryCall (CallWriteFile _) = True"
| "repositoryCall _ = False"

text \<open>
  A handler that started in store \<open>s\<close> stopped early: it returned, and made no call of the
  commit writer or of the index publisher.
\<close>

definition stoppedEarly :: "store \<Rightarrow> unit outcome \<times> store \<Rightarrow> bool" where
  "stoppedEarly s r = (fst r = Return () \<and> filter repositoryCall (newCalls s (snd r)) = [])"

text \<open>
  A handler went on after the commit writer left store \<open>s2\<close>: its next two calls were the
  warning \<open>w\<close> and \<^verbatim>\<open>References()\<close>, the first call of the index publisher.
\<close>

definition publishedAfter :: "store \<Rightarrow> call \<Rightarrow> unit outcome \<times> store \<Rightarrow> bool" where
  "publishedAfter s2 w r = prefix (trace s2 @ [w, CallReferences]) (trace (snd r))"

text \<open>Environments in which one particular call fails whenever it is made.\<close>

definition failingCommit :: "string env" where
  "failingCommit = testEnv (failCall (CallCommit ''configmap.v1..yaml added'' True))"

definition failingCreate :: "string env" where
  "failingCreate = testEnv (failCall (CallCreate ''configmap.v1..yaml''))"

text \<open>
  Runs with a failure in the commit step of the secret: its \<^verbatim>\<open>Add\<close> fails, so that the new
  file is never staged, or its \<^verbatim>\<open>Commit\<close> fails, so that the file stays staged.
\<close>

definition failingSecretAdd :: "string env" where
  "failingSecretAdd = testEnv (failCall (CallAdd ''secret.v1..yaml''))"

definition failingSecretCommit :: "string env" where
  "failingSecretCommit = testEnv (failCall (CallCommit ''secret.v1..yaml added'' True))"

definition secretThenConfigMap :: "string event list" where
  "secretThenConfigMap = [Observed (secret ''s''), Observed (configMap ''data: 1'')]"

definition stagedSecret :: store where
  "stagedSecret =
     snd (write' failingSecretCommit ''configmap.v1..yaml'' ''data: 1''
            (snd (OnAdd failingSecretCommit (secret ''s'') emptyRepository)))"

text \<open>Runs and stores for the commit-skipping properties.\<close>

definition configMapThenSecret :: "string event list" where
  "configMapThenSecret = [Observed (configMap ''data: 1''), Observed (secret ''s'')]"

definition pendingSecret :: store where
  "pendingSecret = snd (run failingSecretCommit configMapThenSecret emptyRepository)"

definition committedOnce :: store where
  "committedOnce = snd (OnAdd okEnv (configMap ''data: 1'') emptyRepository)"

definition fourEvents :: "string event list" where
  "fourEvents =
     [Observed (configMap ''data: 1''),
      Changed (configMap ''data: 1'') (configMap ''data: 1''),
      Changed (configMap ''data: 1'') (configMap ''data: 2''),
      Removed (configMap ''data: 2'')]"

section \<open>Properties\<close>

subsection \<open>Snapshots and primitives\<close>

lemma map_of_drop_path: "map_of (drop_path n t) k = (if k = n then None else map_of t k)"
  unfolding drop_path_def by (induction t) auto

lemma map_of_put_path: "map_of (put_path n c t) k = (if k = n then Some c else map_of t k)"
  unfolding put_path_def by (simp add: map_of_drop_path map_add_def split: option.splits)

lemma entries_drop_path: "[e \<leftarrow> drop_path n t. fst e = n] = []"
  unfolding drop_path_def by (induction t) auto

lemma entries_put_path: "[e \<leftarrow> put_path n c t. fst e = n] = [(n, c)]"
  unfolding put_path_def by (simp add: entries_drop_path)

lemmas prim_defs = repo_Worktree_def fs_Lstat_def fs_Create_def fs_Write_def fs_Close_def
  fs_Remove_def perform_def

lemmas eval_defs = write'.simps delete_def prim_defs okEnv_def testEnv_def noFailure_def
  emptyRepository_def drop_path_def put_path_def

lemma Lstat_files: "fs_Lstat env name s = (r, s') \<Longrightarrow> files s' = files s"
  by (auto simp: prim_defs split: prod.splits bool.splits if_splits)

lemma Worktree_files: "repo_Worktree env s = (r, s') \<Longrightarrow> files s' = files s"
  by (auto simp: prim_defs split: prod.splits bool.splits if_splits)

lemma delete_files:
  "delete env name s = (None, s') \<Longrightarrow>
   map_of (files s') p = (if p = name then None else map_of (files s) p)"
  by (auto simp: delete_def prim_defs map_of_drop_path split: prod.splits bool.splits if_splits)

subsection \<open>The working-tree writer\<close>

lemma write_fresh:
  assumes "repo_Worktree env s = (None, s1)" "fs_Lstat env name s1 = (Some NotExist, s2)"
    "fs_Create env name s2 = (None, s3)" "fs_Write env name content s3 = (None, s4)"
    "fs_Close env name s4 = (r, s5)"
  shows "[e \<leftarrow> files s5. fst e = name] = [(name, content)]"
    and "map_of (files s5) p = (if p = name then Some content else map_of (files s) p)"
  using assms
  by (auto simp: prim_defs entries_put_path map_of_put_path
      split: prod.splits bool.splits if_splits)

lemma write_entries:
  "write' env name content s = (None, s') \<Longrightarrow>
   [e \<leftarrow> files s'. fst e = name] = [(name, content)]"
proof (induction env name content s rule: write'.induct)
  case (1 env name content s)
  show ?case using "1.prems" "1.IH"
    apply (subst (asm) write'.simps)
    apply (auto split: prod.splits option.splits if_splits dest: write_fresh(1))
    done
qed

lemma write_lookup:
  "write' env name content s = (None, s') \<Longrightarrow>
   map_of (files s') p = (if p = name then Some content else map_of (files s) p)"
proof (induction env name content s rule: write'.induct)
  case (1 env name content s)
  obtain r1 s1 where w: "repo_Worktree env s = (r1, s1)" by force
  obtain r2 s2 where l: "fs_Lstat env name s1 = (r2, s2)" by force
  obtain r3 s3 where d: "delete env name s2 = (r3, s3)" by force
  have f: "files s2 = files s" using w l by (simp add: Lstat_files Worktree_files)
  show ?case
  proof (cases r2)
    case None
    with "1.prems" w l d have r1: "r1 = None" and r3: "r3 = None"
      and rec: "write' env name content s3 = (None, s')"
      by (subst (asm) write'.simps, simp split: option.splits)+
    have "map_of (files s') p = (if p = name then Some content else map_of (files s3) p)"
      using "1.IH" w l d r1 r3 None rec by simp
    then show ?thesis using delete_files [OF d [unfolded r3], of p] f by simp
  next
    case (Some e)
    with "1.prems" w l show ?thesis
      apply (subst (asm) write'.simps)
      apply (auto split: prod.splits option.splits if_splits dest: write_fresh(2))
      done
  qed
qed

lemma write_succeeds:
  "\<forall>c n. \<not> fails env c n \<Longrightarrow> fst (write' env name content s) = None"
proof (induction env name content s rule: write'.induct)
  case (1 env name content s)
  show ?case using "1.prems" "1.IH"
    apply (subst write'.simps)
    apply (auto simp: delete_def prim_defs split: prod.splits option.splits if_splits bool.splits)
    done
qed

text \<open>
  Claim C5. Whenever \<^verbatim>\<open>write(name, content)\<close> returns no error, the working tree holds
  exactly one file of that name and its bytes are exactly \<open>content\<close>, whether the file
  was absent (create, write) or present (delete, then create and write), so nothing of a
  longer earlier content is left; every other file is as it was. When no library call
  fails, \<^verbatim>\<open>write\<close> does return no error.
\<close>

theorem write_replaces_content:
  "(write' env name content s = (None, s') \<longrightarrow>
      [e \<leftarrow> files s'. fst e = name] = [(name, content)] \<and>
      map_of (files s') name = Some content \<and>
      (\<forall>p. p \<noteq> name \<longrightarrow> map_of (files s') p = map_of (files s) p)) \<and>
   ((\<forall>c n. \<not> fails env c n) \<longrightarrow> fst (write' env name content s) = None)"
  using write_entries [of env name content s s'] write_lookup [of env name content s s']
    write_succeeds [of env name content s]
  by simp

text \<open>
  The theorem at work: a shorter content over a longer one, and a file that was absent.
\<close>

theorem write_replaces_content_witness:
  "write' okEnv ''configmap.v1..yaml'' ''k: 2'' longStore =
     (None, longStore\<lparr>files := [(''configmap.v1..yaml'', ''k: 2'')],
        trace := [CallWorktree, CallLstat ''configmap.v1..yaml'', CallWorktree,
          CallRemove ''configmap.v1..yaml'', CallWorktree, CallLstat ''configmap.v1..yaml'',
          CallCreate ''configmap.v1..yaml'', CallWrite ''configmap.v1..yaml'' ''k: 2'',
          CallClose ''configmap.v1..yaml'']\<rparr>) \<and>
   map_of (files (snd (write' okEnv ''configmap.v1..yaml'' ''k: 2'' longStore)))
     ''configmap.v1..yaml'' = Some ''k: 2'' \<and>
   write' okEnv ''configmap.v1..yaml'' ''k: 2'' emptyRepository =
     (None, emptyRepository\<lparr>files := [(''configmap.v1..yaml'', ''k: 2'')],
        trace := [CallWorktree, CallLstat ''configmap.v1..yaml'',
          CallCreate ''configmap.v1..yaml'', CallWrite ''configmap.v1..yaml'' ''k: 2'',
          CallClose ''configmap.v1..yaml'']\<rparr>) \<and>
   map_of (files (snd (write' okEnv ''configmap.v1..yaml'' ''k: 2'' emptyRepository)))
     ''configmap.v1..yaml'' = Some ''k: 2'' \<and>
   (\<forall>c n. \<not> fails okEnv c n)"
proof -
  have a: "write' okEnv ''configmap.v1..yaml'' ''k: 2'' longStore =
     (None, longStore\<lparr>files := [(''configmap.v1..yaml'', ''k: 2'')],
        trace := [CallWorktree, CallLstat ''configmap.v1..yaml'', CallWorktree,
          CallRemove ''configmap.v1..yaml'', CallWorktree, CallLstat ''configmap.v1..yaml'',
          CallCreate ''configmap.v1..yaml'', CallWrite ''configmap.v1..yaml'' ''k: 2'',
          CallClose ''configmap.v1..yaml'']\<rparr>)"
    by (simp add: eval_defs longStore_def)
  have b: "write' okEnv ''configmap.v1..yaml'' ''k: 2'' emptyRepository =
     (None, emptyRepository\<lparr>files := [(''configmap.v1..yaml'', ''k: 2'')],
        trace := [CallWorktree, CallLstat ''configmap.v1..yaml'',
          CallCreate ''configmap.v1..yaml'', CallWrite ''configmap.v1..yaml'' ''k: 2'',
          CallClose ''configmap.v1..yaml'']\<rparr>)"
    by (simp add: eval_defs)
  have c: "\<forall>c n. \<not> fails okEnv c n"
    by (simp add: okEnv_def testEnv_def noFailure_def)
  from write_replaces_content [THEN conjunct1, rule_format, OF a]
    write_replaces_content [THEN conjunct1, rule_format, OF b] a b c
  show ?thesis by simp
qed

subsection \<open>The reference index publisher\<close>

lemma foldl_refLine: "foldl (\<lambda>a r. refLine r a) acc rs = acc @ indexLines rs"
proof (induction rs arbitrary: acc)
  case Nil
  show ?case by (simp add: indexLines_def)
next
  case (Cons r rs)
  show ?case using Cons.IH by (cases r) (simp_all add: indexLines_def)
qed

lemmas publish_defs = updateRefsFile_def repo_References_def iter_ForEach_def os_MkdirAll_def
  ioutil_WriteFile_def perform_def

lemma updateRefsFile_result:
  "updateRefsFile env s =
     (if fails env CallReferences (length (trace s))
      then (Panic, s\<lparr>trace := trace s @ [CallReferences]\<rparr>)
      else if fails env CallForEach (Suc (length (trace s)))
      then (Panic, s\<lparr>trace := trace s @ [CallReferences, CallForEach]\<rparr>)
      else if fails env CallMkdirAll (Suc (Suc (length (trace s))))
      then (Panic, s\<lparr>trace := trace s @ [CallReferences, CallForEach, CallMkdirAll]\<rparr>)
      else if fails env (CallWriteFile (indexLines (refs s))) (Suc (Suc (Suc (length (trace s)))))
      then (Panic, s\<lparr>trace := trace s @ [CallReferences, CallForEach, CallMkdirAll,
                                          CallWriteFile (indexLines (refs s))]\<rparr>)
      else (Return (), s\<lparr>infoRefs := Some (indexLines (refs s)),
                          trace := trace s @ [CallReferences, CallForEach, CallMkdirAll,
                                          CallWriteFile (indexLines (refs s))]\<rparr>))"
  by (simp add: publish_defs foldl_refLine)

lemma updateRefsFile_returns:
  "indexCallsSucceed env \<Longrightarrow> fst (updateRefsFile env s) = Return ()"
  by (simp add: updateRefsFile_result indexCallsSucceed_def)

lemma updateRefsFile_no_panic:
  "indexCallsSucceed env \<Longrightarrow> updateRefsFile env s \<noteq> (Panic, s')"
  using updateRefsFile_returns [of env s] by auto

text \<open>
  Claim C8. When \<^verbatim>\<open>updateRefsFile\<close> returns, the index file holds one line, hash, tab,
  name, newline, for each direct reference of the repository in the order of enumeration,
  and no line for a symbolic reference; the content does not depend on what the file held
  before, so the write replaces and does not append. It returns whenever no library call
  fails.
\<close>

theorem publish_writes_direct_references:
  "(updateRefsFile env s = (Return (), s') \<longrightarrow> infoRefs s' = Some (indexLines (refs s))) \<and>
   ((\<forall>c n. \<not> fails env c n) \<longrightarrow> fst (updateRefsFile env s) = Return ())"
  by (auto simp: updateRefsFile_result split: if_splits)

theorem publish_writes_direct_references_witness:
  "updateRefsFile okEnv taggedStore =
     (Return (),
      taggedStore\<lparr>infoRefs := Some (''1f0c'' @ [CHR 0x09] @ ''refs/heads/master'' @ [CHR 0x0A] @
                                    ''9a3e'' @ [CHR 0x09] @ ''refs/tags/v1'' @ [CHR 0x0A]),
        trace := [CallReferences, CallForEach, CallMkdirAll,
                  CallWriteFile (''1f0c'' @ [CHR 0x09] @ ''refs/heads/master'' @ [CHR 0x0A] @
                                 ''9a3e'' @ [CHR 0x09] @ ''refs/tags/v1'' @ [CHR 0x0A])]\<rparr>) \<and>
   infoRefs (snd (updateRefsFile okEnv taggedStore)) =
     Some (''1f0c'' @ [CHR 0x09] @ ''refs/heads/master'' @ [CHR 0x0A] @
           ''9a3e'' @ [CHR 0x09] @ ''refs/tags/v1'' @ [CHR 0x0A])"
proof -
  have a: "updateRefsFile okEnv taggedStore =
     (Return (),
      taggedStore\<lparr>infoRefs := Some (''1f0c'' @ [CHR 0x09] @ ''refs/heads/master'' @ [CHR 0x0A] @
                                    ''9a3e'' @ [CHR 0x09] @ ''refs/tags/v1'' @ [CHR 0x0A]),
        trace := [CallReferences, CallForEach, CallMkdirAll,
                  CallWriteFile (''1f0c'' @ [CHR 0x09] @ ''refs/heads/master'' @ [CHR 0x0A] @
                                 ''9a3e'' @ [CHR 0x09] @ ''refs/tags/v1'' @ [CHR 0x0A])]\<rparr>)"
    by (simp add: publish_defs eval_defs taggedStore_def)
  have "infoRefs (snd (updateRefsFile okEnv taggedStore)) = Some (indexLines (refs taggedStore))"
    using publish_writes_direct_references [THEN conjunct1, rule_format, OF a] a by simp
  then show ?thesis using a by (simp add: indexLines_def taggedStore_def emptyRepository_def)
qed

subsection \<open>Panics and returns of the handlers\<close>

lemma decode_Unstructured:
  "decodeUnstructuredObject env (Unstructured u) \<noteq> Panic"
  by (simp add: decodeUnstructuredObject_def Let_def split: sum.splits)

lemma OnAdd_returns:
  "indexCallsSucceed env \<Longrightarrow> fst (OnAdd env (Unstructured u) s) = Return ()"
  using decode_Unstructured [of env u]
  by (auto simp: OnAdd_def Let_def updateRefsFile_no_panic
      split: outcome.splits prod.splits option.splits)

lemma OnUpdate_returns:
  "indexCallsSucceed env \<Longrightarrow> fst (OnUpdate env old (Unstructured u) s) = Return ()"
  using decode_Unstructured [of env u]
  by (auto simp: OnUpdate_def Let_def updateRefsFile_no_panic
      split: outcome.splits prod.splits option.splits)

lemma OnDelete_returns:
  "indexCallsSucceed env \<Longrightarrow> fst (OnDelete env (Unstructured u) s) = Return ()"
  using decode_Unstructured [of env u]
  by (auto simp: OnDelete_def Let_def updateRefsFile_no_panic
      split: outcome.splits prod.splits option.splits)

lemmas handler_defs = OnAdd_def OnUpdate_def OnDelete_def decodeUnstructuredObject_def
  resourceFilename_def ToLower_def lowerChar_def commit_def wt_Status_def statusOf_def
  knownPaths_def fileStatus_def headTree_def stagingCode_def worktreeCode_def IsClean_def
  wt_Add_def stage_def wt_Commit_def autoAddModifiedAndDeleted_def updateHEAD_def klog_def
  configMap_def secret_def failCall_def quote_def Let_def

text \<open>
  Claim C4. \<^verbatim>\<open>updateRefsFile\<close> panics exactly when one of its four library calls fails:
  enumerating the references (the dropped error leaves a nil iterator, and the next call
  dereferences it), iterating them, creating the directory, writing the file. It never
  goes on past such a failure. Failures of decoding, of the working-tree write and of
  the commit are not fatal: while those four calls succeed, each handler returns on every
  object of the expected type, whether or not it encodes and whatever else fails.
\<close>

theorem index_failures_fatal:
  "(fst (updateRefsFile env s) = Panic \<longleftrightarrow>
      fails env CallReferences (length (trace s)) \<or>
      fails env CallForEach (Suc (length (trace s))) \<or>
      fails env CallMkdirAll (Suc (Suc (length (trace s)))) \<or>
      fails env (CallWriteFile (indexLines (refs s))) (Suc (Suc (Suc (length (trace s)))))) \<and>
   (indexCallsSucceed env \<longrightarrow>
      fst (OnAdd env (Unstructured u) s) = Return () \<and>
      fst (OnUpdate env old (Unstructured u) s) = Return () \<and>
      fst (OnDelete env (Unstructured u) s) = Return ())"
  by (simp add: updateRefsFile_result OnAdd_returns OnUpdate_returns OnDelete_returns)

theorem index_failures_fatal_witness:
  "fails (testEnv (failCall CallReferences)) CallReferences (length (trace emptyRepository)) \<and>
   fst (updateRefsFile (testEnv (failCall CallReferences)) emptyRepository) = Panic \<and>
   fails (testEnv (failCall CallMkdirAll)) CallMkdirAll (Suc (Suc (length (trace taggedStore)))) \<and>
   fst (updateRefsFile (testEnv (failCall CallMkdirAll)) taggedStore) = Panic \<and>
   indexCallsSucceed (testEnv (failCall CallStatus)) \<and>
   fst (OnAdd (testEnv (failCall CallStatus)) (configMap ''data: 1'') emptyRepository) = Return () \<and>
   indexCallsSucceed brokenCodec \<and>
   fst (OnDelete brokenCodec (configMap ''data: 1'') emptyRepository) = Return ()"
proof -
  have r: "fails (testEnv (failCall CallReferences)) CallReferences (length (trace emptyRepository))"
    by (simp add: testEnv_def failCall_def)
  have m: "fails (testEnv (failCall CallMkdirAll)) CallMkdirAll (Suc (Suc (length (trace taggedStore))))"
    by (simp add: testEnv_def failCall_def)
  have i: "indexCallsSucceed (testEnv (failCall CallStatus))"
    by (simp add: indexCallsSucceed_def testEnv_def failCall_def)
  have j: "indexCallsSucceed brokenCodec"
    by (simp add: indexCallsSucceed_def brokenCodec_def okEnv_def testEnv_def noFailure_def)
  have "fst (updateRefsFile (testEnv (failCall CallReferences)) emptyRepository) = Panic"
    using index_failures_fatal [THEN conjunct1, of "testEnv (failCall CallReferences)" emptyRepository] r
    by blast
  moreover have "fst (updateRefsFile (testEnv (failCall CallMkdirAll)) taggedStore) = Panic"
    using index_failures_fatal [THEN conjunct1, of "testEnv (failCall CallMkdirAll)" taggedStore] m
    by blast
  moreover have "fst (OnAdd (testEnv (failCall CallStatus)) (configMap ''data: 1'') emptyRepository) = Return ()"
    using index_failures_fatal [THEN conjunct2, rule_format, OF i] by (simp add: configMap_def)
  moreover have "fst (OnDelete brokenCodec (configMap ''data: 1'') emptyRepository) = Return ()"
    using index_failures_fatal [THEN conjunct2, rule_format, OF j] by (simp add: configMap_def)
  ultimately show ?thesis using r m i j by simp
qed

text \<open>
  Claim C2. The decoder asserts the dynamic type of its argument without the two-result
  form, so an object of any other type makes it panic, and the panic leaves the handler:
  here on the tombstone that an informer hands to its delete handler when it missed the
  deletion, and on the same value given to the other two handlers.
\<close>

theorem foreign_object_panics:
  "decodeUnstructuredObject okEnv (Foreign ''cache.DeletedFinalStateUnknown'') = Panic \<and>
   OnDelete okEnv (Foreign ''cache.DeletedFinalStateUnknown'') emptyRepository
     = (Panic, emptyRepository) \<and>
   OnAdd okEnv (Foreign ''cache.DeletedFinalStateUnknown'') emptyRepository
     = (Panic, emptyRepository) \<and>
   OnUpdate okEnv (configMap ''data: 1'') (Foreign ''cache.DeletedFinalStateUnknown'')
     emptyRepository = (Panic, emptyRepository)"
  by (simp add: OnAdd_def OnUpdate_def OnDelete_def decodeUnstructuredObject_def)

subsection \<open>The snapshot serializer\<close>

text \<open>
  Claim C9. The decoder names the snapshot file of an object by the lower-cased text
  kind, dot, version, dot, group, \<^verbatim>\<open>.yaml\<close> of its type descriptor, whether or not the
  object encodes; two objects with the same descriptor get the same name, whatever their
  payloads and whatever the codecs do.
\<close>

theorem snapshot_name_from_descriptor:
  "gvk u' = gvk u \<Longrightarrow>
   \<exists>c e c' e'.
     decodeUnstructuredObject env (Unstructured u) =
       Return (ToLower (Kind (gvk u) @ ''.'' @ Version (gvk u) @ ''.'' @ Group (gvk u) @ ''.yaml''),
               c, e) \<and>
     decodeUnstructuredObject env' (Unstructured u') =
       Return (ToLower (Kind (gvk u) @ ''.'' @ Version (gvk u) @ ''.'' @ Group (gvk u) @ ''.yaml''),
               c', e')"
  by (simp add: decodeUnstructuredObject_def resourceFilename_def Let_def split: sum.splits)

theorem snapshot_name_from_descriptor_witness:
  "\<exists>c e c' e'.
     decodeUnstructuredObject okEnv (configMap ''data: 1'') =
       Return (''configmap.v1..yaml'', c, e) \<and>
     decodeUnstructuredObject brokenCodec (configMap ''data: 2'') =
       Return (''configmap.v1..yaml'', c', e')"
proof -
  have g: "gvk \<lparr>gvk = \<lparr>Group = [], Version = ''v1'', Kind = ''ConfigMap''\<rparr>, payload = ''data: 2''\<rparr>
         = gvk \<lparr>gvk = \<lparr>Group = [], Version = ''v1'', Kind = ''ConfigMap''\<rparr>, payload = ''data: 1''\<rparr>"
    by simp
  show ?thesis
    using snapshot_name_from_descriptor [OF g, of okEnv brokenCodec]
    by (simp add: configMap_def ToLower_def lowerChar_def)
qed

subsection \<open>The commit writer, step by step\<close>

lemma statusOf_trace [simp]: "statusOf (s\<lparr>trace := t\<rparr>) = statusOf s"
  by (simp add: statusOf_def knownPaths_def fileStatus_def headTree_def)

lemma commit_result:
  "commit env name component message s =
     (if fails env CallWorktree (length (trace s))
      then (('''', Some Failure), s\<lparr>trace := trace s @ [CallWorktree]\<rparr>)
      else if fails env CallStatus (Suc (length (trace s)))
      then (('''', Some Failure), s\<lparr>trace := trace s @ [CallWorktree, CallStatus]\<rparr>)
      else if IsClean (statusOf s)
      then (('''', None), s\<lparr>trace := trace s @ [CallWorktree, CallStatus]\<rparr>)
      else if fails env (CallAdd name) (Suc (Suc (length (trace s))))
      then (('''', Some Failure), s\<lparr>trace := trace s @ [CallWorktree, CallStatus, CallAdd name]\<rparr>)
      else if fails env (CallCommit message True) (Suc (Suc (Suc (length (trace s)))))
      then (('''', Some Failure),
            s\<lparr>index := stage (files s) name (index s),
              trace := trace s @ [CallWorktree, CallStatus, CallAdd name, CallCommit message True]\<rparr>)
      else ((hashOf env (commitObject env name component message s), None),
            s\<lparr>index := ctree (commitObject env name component message s),
              history := history s @ [commitObject env name component message s],
              refs := updateHEAD (hashOf env (commitObject env name component message s)) (refs s),
              trace := trace s @ [CallWorktree, CallStatus, CallAdd name, CallCommit message True]\<rparr>))"
  by (simp add: commit_def repo_Worktree_def wt_Status_def wt_Add_def wt_Commit_def perform_def
      commitObject_def Let_def)

subsection \<open>What the working-tree writer leaves alone\<close>

lemma sameRepository_refl [simp]: "sameRepository s s"
  by (simp add: sameRepository_def)

lemma sameRepository_trans: "sameRepository s s1 \<Longrightarrow> sameRepository s1 s2 \<Longrightarrow> sameRepository s s2"
  by (simp add: sameRepository_def)

lemma extendsBy_refl [simp]: "extendsBy s s"
  by (simp add: extendsBy_def)

lemma extendsBy_trans: "extendsBy s s1 \<Longrightarrow> extendsBy s1 s2 \<Longrightarrow> extendsBy s s2"
  by (auto simp: extendsBy_def)

lemma prim_frame:
  "repo_Worktree env s = (r, s') \<Longrightarrow> sameRepository s s' \<and> extendsBy s s'"
  "fs_Lstat env name s = (r, s') \<Longrightarrow> sameRepository s s' \<and> extendsBy s s'"
  "fs_Create env name s = (r, s') \<Longrightarrow> sameRepository s s' \<and> extendsBy s s'"
  "fs_Write env name content s = (r, s') \<Longrightarrow> sameRepository s s' \<and> extendsBy s s'"
  "fs_Close env name s = (r, s') \<Longrightarrow> sameRepository s s' \<and> extendsBy s s'"
  "fs_Remove env name s = (r, s') \<Longrightarrow> sameRepository s s' \<and> extendsBy s s'"
  by (auto simp: prim_defs sameRepository_def extendsBy_def split: if_splits bool.splits)

lemma delete_frame:
  "delete env name s = (r, s') \<Longrightarrow> sameRepository s s' \<and> extendsBy s s'"
  by (auto simp: delete_def split: prod.splits option.splits
      dest!: prim_frame intro: sameRepository_trans extendsBy_trans)

lemma write_frame:
  "write' env name content s = (r, s') \<Longrightarrow> sameRepository s s' \<and> extendsBy s s'"
proof (induction env name content s arbitrary: r s' rule: write'.induct)
  case (1 env name content s)
  obtain r1 s1 where w: "repo_Worktree env s = (r1, s1)" by force
  obtain r2 s2 where l: "fs_Lstat env name s1 = (r2, s2)" by force
  obtain r3 s3 where d: "delete env name s2 = (r3, s3)" by force
  obtain r4 s4 where c: "fs_Create env name s2 = (r4, s4)" by force
  obtain r5 s5 where x: "fs_Write env name content s4 = (r5, s5)" by force
  obtain r6 s6 where z: "fs_Close env name s5 = (r6, s6)" by force
  note fr = prim_frame(1) [OF w] prim_frame(2) [OF l] delete_frame [OF d] prim_frame(3) [OF c]
    prim_frame(4) [OF x] prim_frame(5) [OF z]
  show ?case
  proof (cases "r1 = None \<and> r2 = None \<and> r3 = None")
    case True
    then have rec: "write' env name content s3 = (r, s')"
      using "1.prems" w l d by (subst (asm) write'.simps) simp
    have "sameRepository s3 s' \<and> extendsBy s3 s'"
      using "1.IH" [of _ s1 r2 s2 r3 s3 r s'] w l d True rec by simp
    then show ?thesis using fr by (blast intro: sameRepository_trans extendsBy_trans)
  next
    case False
    then show ?thesis using "1.prems" w l d c x z fr
      apply (subst (asm) write'.simps)
      apply (simp split: option.splits if_splits)
      apply (blast intro: sameRepository_trans extendsBy_trans)+
      done
  qed
qed

subsection \<open>The order of the commit writer's steps\<close>

text \<open>
  Claim C7, as the code has it. The commit writer calls, in this order, \<^verbatim>\<open>Worktree()\<close>,
  \<^verbatim>\<open>Status()\<close>, \<^verbatim>\<open>Add(name)\<close>, \<^verbatim>\<open>Commit(message, All)\<close>, and stops at the first call that
  fails. The status is computed before anything is staged: the named path is staged
  exactly when the status was obtained and is not clean, and on a clean status the writer
  returns the empty identifier and no error without staging.
\<close>

theorem commit_status_before_stage:
  "trace (snd (commit env name component message s)) =
     trace s @ newCalls s (snd (commit env name component message s)) \<and>
   newCalls s (snd (commit env name component message s)) \<noteq> [] \<and>
   prefix (newCalls s (snd (commit env name component message s)))
     [CallWorktree, CallStatus, CallAdd name, CallCommit message True] \<and>
   (CallAdd name \<in> set (newCalls s (snd (commit env name component message s))) \<longleftrightarrow>
      \<not> fails env CallWorktree (length (trace s)) \<and>
      \<not> fails env CallStatus (Suc (length (trace s))) \<and>
      \<not> IsClean (statusOf s)) \<and>
   (\<not> fails env CallWorktree (length (trace s)) \<and>
    \<not> fails env CallStatus (Suc (length (trace s))) \<and> IsClean (statusOf s) \<longrightarrow>
      commit env name component message s =
        (('''', None), s\<lparr>trace := trace s @ [CallWorktree, CallStatus]\<rparr>))"
  by (simp add: commit_result newCalls_def)

lemma status_longStore: "\<not> IsClean (statusOf longStore)"
  by (simp add: longStore_def handler_defs eval_defs)

lemma status_emptyRepository: "IsClean (statusOf emptyRepository)"
  by (simp add: handler_defs eval_defs)

lemma okEnv_fails [simp]: "\<not> fails okEnv c n"
  by (simp add: okEnv_def testEnv_def noFailure_def)

text \<open>
  Against the order of the claim: on a changed working tree the status is the second call
  and the staging the third; on a clean one nothing is staged at all.
\<close>

theorem commit_stages_first_counterexample:
  "newCalls longStore
     (snd (commit okEnv ''configmap.v1..yaml'' ''operator'' ''configmap.v1..yaml added'' longStore))
     = [CallWorktree, CallStatus, CallAdd ''configmap.v1..yaml'',
        CallCommit ''configmap.v1..yaml added'' True] \<and>
   newCalls emptyRepository
     (snd (commit okEnv ''configmap.v1..yaml'' ''operator'' ''configmap.v1..yaml added''
        emptyRepository))
     = [CallWorktree, CallStatus]"
  by (simp add: commit_result newCalls_def status_longStore status_emptyRepository)

theorem commit_status_before_stage_witness:
  "\<not> fails okEnv CallWorktree (length (trace longStore)) \<and>
   \<not> fails okEnv CallStatus (Suc (length (trace longStore))) \<and>
   \<not> IsClean (statusOf longStore) \<and>
   CallAdd ''configmap.v1..yaml'' \<in>
     set (newCalls longStore (snd (commit okEnv ''configmap.v1..yaml'' ''operator'' ''m'' longStore))) \<and>
   IsClean (statusOf emptyRepository) \<and>
   commit okEnv ''configmap.v1..yaml'' ''operator'' ''m'' emptyRepository =
     (('''', None), emptyRepository\<lparr>trace := [CallWorktree, CallStatus]\<rparr>)"
proof -
  note t1 = commit_status_before_stage
    [of okEnv "''configmap.v1..yaml''" "''operator''" "''m''" longStore]
  note t2 = commit_status_before_stage
    [of okEnv "''configmap.v1..yaml''" "''operator''" "''m''" emptyRepository]
  have a: "CallAdd ''configmap.v1..yaml'' \<in>
     set (newCalls longStore (snd (commit okEnv ''configmap.v1..yaml'' ''operator'' ''m'' longStore)))"
    using t1 okEnv_fails status_longStore by blast
  have b: "commit okEnv ''configmap.v1..yaml'' ''operator'' ''m'' emptyRepository =
     (('''', None), emptyRepository\<lparr>trace := trace emptyRepository @ [CallWorktree, CallStatus]\<rparr>)"
    using t2 okEnv_fails status_emptyRepository by blast
  show ?thesis using a b status_longStore status_emptyRepository
    by (simp add: emptyRepository_def)
qed

subsection \<open>Where a handler stops\<close>

lemma workingTree_not_repository: "workingTreeCall c \<Longrightarrow> \<not> repositoryCall c"
  by (cases c) simp_all

lemma filter_workingTree: "list_all workingTreeCall cs \<Longrightarrow> filter repositoryCall cs = []"
  by (induction cs) (auto dest: workingTree_not_repository)

lemma stopped_after_tree:
  "extendsBy s s1 \<Longrightarrow> stoppedEarly s (Return (), klog (Warningf f n e) s1)"
  by (auto simp: extendsBy_def stoppedEarly_def newCalls_def klog_def filter_workingTree)

lemma stopped_at_decode: "stoppedEarly s (Return (), klog (Warningf f n e) s)"
  using stopped_after_tree [of s s] by simp

lemma published_klog:
  "publishedAfter s2 w (case updateRefsFile env (klog w s2) of
        (Panic, s4) \<Rightarrow> (Panic, s4)
      | (Return _, s4) \<Rightarrow> (Return (), klog i s4))"
  by (simp add: publishedAfter_def updateRefsFile_result klog_def)

lemma OnAdd_stops:
  assumes "decodeUnstructuredObject env obj = Return (name, content, derr)"
  shows "derr \<noteq> None \<Longrightarrow> stoppedEarly s (OnAdd env obj s)"
    and "derr = None \<Longrightarrow> fst (write' env name content s) \<noteq> None \<Longrightarrow>
         stoppedEarly s (OnAdd env obj s)"
    and "derr = None \<Longrightarrow> write' env name content s = (None, s1) \<Longrightarrow>
         commit env name ''operator'' (name @ '' added'') s1 = ((h, Some e), s2) \<Longrightarrow>
         publishedAfter s2 (Warningf ''Unable to commit file %q: %v'' name e) (OnAdd env obj s)"
proof -
  show "derr \<noteq> None \<Longrightarrow> stoppedEarly s (OnAdd env obj s)"
    using assms by (auto simp: OnAdd_def stopped_at_decode)
  show "derr = None \<Longrightarrow> fst (write' env name content s) \<noteq> None \<Longrightarrow>
        stoppedEarly s (OnAdd env obj s)"
    using assms write_frame [of env name content s]
    by (cases "write' env name content s") (auto simp: OnAdd_def stopped_after_tree)
  show "derr = None \<Longrightarrow> write' env name content s = (None, s1) \<Longrightarrow>
         commit env name ''operator'' (name @ '' added'') s1 = ((h, Some e), s2) \<Longrightarrow>
         publishedAfter s2 (Warningf ''Unable to commit file %q: %v'' name e) (OnAdd env obj s)"
    using assms by (simp add: OnAdd_def published_klog)
qed

lemma OnUpdate_stops:
  assumes "decodeUnstructuredObject env obj = Return (name, content, derr)"
  shows "derr \<noteq> None \<Longrightarrow> stoppedEarly s (OnUpdate env old obj s)"
    and "derr = None \<Longrightarrow> fst (write' env name content s) \<noteq> None \<Longrightarrow>
         stoppedEarly s (OnUpdate env old obj s)"
    and "derr = None \<Longrightarrow> write' env name content s = (None, s1) \<Longrightarrow>
         commit env name ''operator'' (name @ '' modified'') s1 = ((h, Some e), s2) \<Longrightarrow>
         publishedAfter s2 (Warningf ''Unable to commit file %q: %v'' name e)
           (OnUpdate env old obj s)"
proof -
  show "derr \<noteq> None \<Longrightarrow> stoppedEarly s (OnUpdate env old obj s)"
    using assms by (auto simp: OnUpdate_def stopped_at_decode)
  show "derr = None \<Longrightarrow> fst (write' env name content s) \<noteq> None \<Longrightarrow>
        stoppedEarly s (OnUpdate env old obj s)"
    using assms write_frame [of env name content s]
    by (cases "write' env name content s") (auto simp: OnUpdate_def stopped_after_tree)
  show "derr = None \<Longrightarrow> write' env name content s = (None, s1) \<Longrightarrow>
         commit env name ''operator'' (name @ '' modified'') s1 = ((h, Some e), s2) \<Longrightarrow>
         publishedAfter s2 (Warningf ''Unable to commit file %q: %v'' name e)
           (OnUpdate env old obj s)"
    using assms by (simp add: OnUpdate_def published_klog)
qed

lemma OnDelete_stops:
  assumes "decodeUnstructuredObject env obj = Return (name, content, derr)"
  shows "derr \<noteq> None \<Longrightarrow> stoppedEarly s (OnDelete env obj s)"
    and "derr = None \<Longrightarrow> fst (delete env name s) \<noteq> None \<Longrightarrow>
         stoppedEarly s (OnDelete env obj s)"
    and "derr = None \<Longrightarrow> delete env name s = (None, s1) \<Longrightarrow>
         commit env name ''operator'' (quote name @ '' removed'') s1 = ((h, Some e), s2) \<Longrightarrow>
         publishedAfter s2 (Warningf ''Unable to commit file %q: %v'' name e) (OnDelete env obj s)"
proof -
  show "derr \<noteq> None \<Longrightarrow> stoppedEarly s (OnDelete env obj s)"
    using assms by (auto simp: OnDelete_def stopped_at_decode)
  show "derr = None \<Longrightarrow> fst (delete env name s) \<noteq> None \<Longrightarrow>
        stoppedEarly s (OnDelete env obj s)"
    using assms delete_frame [of env name s]
    by (cases "delete env name s") (auto simp: OnDelete_def stopped_after_tree)
  show "derr = None \<Longrightarrow> delete env name s = (None, s1) \<Longrightarrow>
         commit env name ''operator'' (quote name @ '' removed'') s1 = ((h, Some e), s2) \<Longrightarrow>
         publishedAfter s2 (Warningf ''Unable to commit file %q: %v'' name e) (OnDelete env obj s)"
    using assms by (simp add: OnDelete_def published_klog)
qed

text \<open>
  Claim C3. For an object that the decoder names \<open>name\<close>: when decoding fails, or the
  working-tree write (for a removal, the delete) fails, the handler returns without any
  call of the commit writer or of the index publisher. When the commit writer fails, the
  handler logs the failure and its next call is \<^verbatim>\<open>References()\<close>, the first step of the index
  publisher. This holds for \<^verbatim>\<open>OnAdd\<close>, \<^verbatim>\<open>OnUpdate\<close> and \<^verbatim>\<open>OnDelete\<close> alike.
\<close>

theorem commit_failure_still_publishes:
  assumes "decodeUnstructuredObject env obj = Return (name, content, derr)"
  shows
  "(derr \<noteq> None \<longrightarrow>
      stoppedEarly s (OnAdd env obj s) \<and> stoppedEarly s (OnUpdate env old obj s) \<and>
      stoppedEarly s (OnDelete env obj s)) \<and>
   (derr = None \<and> fst (write' env name content s) \<noteq> None \<longrightarrow>
      stoppedEarly s (OnAdd env obj s) \<and> stoppedEarly s (OnUpdate env old obj s)) \<and>
   (derr = None \<and> fst (delete env name s) \<noteq> None \<longrightarrow> stoppedEarly s (OnDelete env obj s)) \<and>
   (derr = None \<and> write' env name content s = (None, s1) \<and>
    commit env name ''operator'' (name @ '' added'') s1 = ((h, Some e), s2) \<longrightarrow>
      publishedAfter s2 (Warningf ''Unable to commit file %q: %v'' name e) (OnAdd env obj s)) \<and>
   (derr = None \<and> write' env name content s = (None, s1) \<and>
    commit env name ''operator'' (name @ '' modified'') s1 = ((h', Some e'), s2') \<longrightarrow>
      publishedAfter s2' (Warningf ''Unable to commit file %q: %v'' name e')
        (OnUpdate env old obj s)) \<and>
   (derr = None \<and> delete env name s = (None, s1') \<and>
    commit env name ''operator'' (quote name @ '' removed'') s1' = ((h'', Some e''), s2'') \<longrightarrow>
      publishedAfter s2'' (Warningf ''Unable to commit file %q: %v'' name e'')
        (OnDelete env obj s))"
  by (intro conjI impI; (elim conjE)?;
      rule OnAdd_stops [OF assms] OnUpdate_stops [OF assms] OnDelete_stops [OF assms];
      assumption)

lemmas env_defs = failingCommit_def failingCreate_def brokenCodec_def okEnv_def testEnv_def
  failCall_def noFailure_def

theorem commit_failure_still_publishes_witness:
  "stoppedEarly emptyRepository (OnDelete brokenCodec (configMap ''data: 1'') emptyRepository) \<and>
   fst (write' failingCreate ''configmap.v1..yaml'' ''data: 1'' emptyRepository) \<noteq> None \<and>
   stoppedEarly emptyRepository
     (OnUpdate failingCreate (configMap ''data: 0'') (configMap ''data: 1'') emptyRepository) \<and>
   fst (write' failingCommit ''configmap.v1..yaml'' ''data: 1'' emptyRepository) = None \<and>
   fst (commit failingCommit ''configmap.v1..yaml'' ''operator'' ''configmap.v1..yaml added''
          (snd (write' failingCommit ''configmap.v1..yaml'' ''data: 1'' emptyRepository)))
     = ('''', Some Failure) \<and>
   publishedAfter
     (snd (commit failingCommit ''configmap.v1..yaml'' ''operator'' ''configmap.v1..yaml added''
          (snd (write' failingCommit ''configmap.v1..yaml'' ''data: 1'' emptyRepository))))
     (Warningf ''Unable to commit file %q: %v'' ''configmap.v1..yaml'' Failure)
     (OnAdd failingCommit (configMap ''data: 1'') emptyRepository)"
proof -
  have d1: "decodeUnstructuredObject brokenCodec (configMap ''data: 1'') =
      Return (''configmap.v1..yaml'', [], Some Failure)"
    by (simp add: handler_defs env_defs)
  have d2: "decodeUnstructuredObject failingCreate (configMap ''data: 1'') =
      Return (''configmap.v1..yaml'', ''data: 1'', None)"
    by (simp add: handler_defs env_defs)
  have d3: "decodeUnstructuredObject failingCommit (configMap ''data: 1'') =
      Return (''configmap.v1..yaml'', ''data: 1'', None)"
    by (simp add: handler_defs env_defs)
  have w2: "fst (write' failingCreate ''configmap.v1..yaml'' ''data: 1'' emptyRepository) \<noteq> None"
    by (simp add: eval_defs env_defs)
  have w3: "write' failingCommit ''configmap.v1..yaml'' ''data: 1'' emptyRepository =
      (None, snd (write' failingCommit ''configmap.v1..yaml'' ''data: 1'' emptyRepository))"
    by (simp add: eval_defs env_defs)
  have c3: "commit failingCommit ''configmap.v1..yaml'' ''operator'' (''configmap.v1..yaml'' @ '' added'')
          (snd (write' failingCommit ''configmap.v1..yaml'' ''data: 1'' emptyRepository)) =
      (('''', Some Failure),
       snd (commit failingCommit ''configmap.v1..yaml'' ''operator'' ''configmap.v1..yaml added''
          (snd (write' failingCommit ''configmap.v1..yaml'' ''data: 1'' emptyRepository))))"
    by (simp add: eval_defs env_defs handler_defs)
  have a: "stoppedEarly emptyRepository (OnDelete brokenCodec (configMap ''data: 1'') emptyRepository)"
    using commit_failure_still_publishes [OF d1, of emptyRepository] by simp
  have b: "stoppedEarly emptyRepository
     (OnUpdate failingCreate (configMap ''data: 0'') (configMap ''data: 1'') emptyRepository)"
    using commit_failure_still_publishes [OF d2, of emptyRepository] w2 by simp
  have c: "publishedAfter
     (snd (commit failingCommit ''configmap.v1..yaml'' ''operator'' ''configmap.v1..yaml added''
          (snd (write' failingCommit ''configmap.v1..yaml'' ''data: 1'' emptyRepository))))
     (Warningf ''Unable to commit file %q: %v'' ''configmap.v1..yaml'' Failure)
     (OnAdd failingCommit (configMap ''data: 1'') emptyRepository)"
    using commit_failure_still_publishes [OF d3, of emptyRepository _ _ "''''" Failure] w3 c3 by blast
  show ?thesis using a b c w2 w3 c3 by (metis fst_conv append.simps)
qed

subsection \<open>Clean working trees\<close>

lemma stagingCode_Unmodified: "stagingCode h i = Unmodified \<longleftrightarrow> h = i \<and> h \<noteq> None"
  by (auto simp: stagingCode_def split: option.splits)

lemma worktreeCode_Unmodified: "worktreeCode i w = Unmodified \<longleftrightarrow> i = w"
  by (auto simp: worktreeCode_def split: option.splits)

lemma knownPaths_iff:
  "p \<in> set (knownPaths s) \<longleftrightarrow>
   map_of (headTree s) p \<noteq> None \<or> map_of (index s) p \<noteq> None \<or> map_of (files s) p \<noteq> None"
  by (auto simp: knownPaths_def map_of_eq_None_iff)

lemma IsClean_iff:
  "IsClean (statusOf s) \<longleftrightarrow>
   (\<forall>p. map_of (headTree s) p = map_of (index s) p \<and> map_of (index s) p = map_of (files s) p)"
proof
  assume c: "IsClean (statusOf s)"
  show "\<forall>p. map_of (headTree s) p = map_of (index s) p \<and> map_of (index s) p = map_of (files s) p"
  proof
    fix p
    show "map_of (headTree s) p = map_of (index s) p \<and> map_of (index s) p = map_of (files s) p"
    proof (cases "p \<in> set (knownPaths s)")
      case True
      with c show ?thesis
        by (auto simp: IsClean_def statusOf_def list_all_iff fileStatus_def
            stagingCode_Unmodified worktreeCode_Unmodified)
    next
      case False
      then show ?thesis by (simp add: knownPaths_iff)
    qed
  qed
next
  assume a: "\<forall>p. map_of (headTree s) p = map_of (index s) p \<and> map_of (index s) p = map_of (files s) p"
  show "IsClean (statusOf s)"
    using a by (auto simp: IsClean_def statusOf_def list_all_iff fileStatus_def
        stagingCode_Unmodified worktreeCode_Unmodified knownPaths_iff)
qed

subsection \<open>What a commit holds\<close>

lemma map_of_stage:
  "map_of (stage wt p idx) q = (if q = p then map_of wt p else map_of idx q)"
  by (simp add: stage_def map_of_drop_path map_of_put_path split: option.splits)

lemma foldl_autoAdd:
  "map_of (foldl (\<lambda>acc p. if worktreeCode (map_of idx p) (map_of wt p) = Modified \<or>
                               worktreeCode (map_of idx p) (map_of wt p) = Deleted
                            then stage wt p acc else acc) acc ps) q =
   (if q \<in> set ps \<and> (worktreeCode (map_of idx q) (map_of wt q) = Modified \<or>
                     worktreeCode (map_of idx q) (map_of wt q) = Deleted)
    then map_of wt q else map_of acc q)"
proof (induction ps arbitrary: acc)
  case Nil
  show ?case by simp
next
  case (Cons p ps)
  show ?case by (simp add: Cons.IH map_of_stage)
qed

lemma map_of_autoAdd:
  "map_of (autoAddModifiedAndDeleted wt idx) q =
   (if map_of idx q = None then None else map_of wt q)"
proof -
  have m: "q \<in> set (remdups (map fst idx)) \<longleftrightarrow> map_of idx q \<noteq> None"
    using map_of_eq_None_iff [of idx q] by auto
  have "map_of (autoAddModifiedAndDeleted wt idx) q =
     (if q \<in> set (remdups (map fst idx)) \<and>
         (worktreeCode (map_of idx q) (map_of wt q) = Modified \<or>
          worktreeCode (map_of idx q) (map_of wt q) = Deleted)
      then map_of wt q else map_of idx q)"
    unfolding autoAddModifiedAndDeleted_def by (rule foldl_autoAdd)
  then show ?thesis unfolding m
    by (cases "map_of idx q"; cases "map_of wt q") (auto simp: worktreeCode_def)
qed

lemma commitObject_tree:
  "map_of (ctree (commitObject env name component message s)) p =
   (if p = name \<or> map_of (index s) p \<noteq> None then map_of (files s) p else None)"
  by (simp add: commitObject_def map_of_autoAdd map_of_stage)

text \<open>
  Claim C10, as the code has it. When the commit writer creates a commit, it calls
  \<^verbatim>\<open>Commit\<close> with \<^verbatim>\<open>All\<close> set, and the tree of the new commit holds, for the named path and
  for every path that the index already knew, the content that the working tree has at
  that moment (or no entry where the file is gone), and nothing for any other path: the
  changes of tracked or staged paths left by an earlier event are folded in, a new file
  that was never staged is not.
\<close>

theorem commit_all_folds_tracked_changes:
  "history (snd (commit env name component message s)) \<noteq> history s \<Longrightarrow>
   \<exists>c. history (snd (commit env name component message s)) = history s @ [c] \<and>
       cmessage c = message \<and>
       CallCommit message True \<in> set (newCalls s (snd (commit env name component message s))) \<and>
       (\<forall>p. map_of (ctree c) p =
            (if p = name \<or> map_of (index s) p \<noteq> None then map_of (files s) p else None))"
  by (auto simp: commit_result newCalls_def commitObject_tree split: if_splits)
    (simp add: commitObject_def)

lemmas run_defs = run.simps handle.simps handler_defs eval_defs publish_defs env_defs
  failingSecretAdd_def failingSecretCommit_def secretThenConfigMap_def

text \<open>
  Against the claim as stated: the commit step of the secret fails at \<^verbatim>\<open>Add\<close>, its file is
  left in the working tree, and the commit of the next event does not take it in.
\<close>

theorem commit_all_leaves_untracked_counterexample:
  "map cmessage (history (snd (run failingSecretAdd secretThenConfigMap emptyRepository)))
     = [''configmap.v1..yaml added''] \<and>
   map ctree (history (snd (run failingSecretAdd secretThenConfigMap emptyRepository)))
     = [[(''configmap.v1..yaml'', ''data: 1'')]] \<and>
   files (snd (run failingSecretAdd secretThenConfigMap emptyRepository))
     = [(''secret.v1..yaml'', ''s''), (''configmap.v1..yaml'', ''data: 1'')] \<and>
   Warningf ''Unable to commit file %q: %v'' ''secret.v1..yaml'' Failure
     \<in> set (trace (snd (run failingSecretAdd secretThenConfigMap emptyRepository)))"
  by (simp add: run_defs)

lemma stagedSecret_eval:
  "files stagedSecret = [(''secret.v1..yaml'', ''s''), (''configmap.v1..yaml'', ''data: 1'')]"
  "index stagedSecret = [(''secret.v1..yaml'', ''s'')]"
  "history stagedSecret = []"
  by (simp_all add: stagedSecret_def run_defs)

theorem commit_all_folds_tracked_changes_witness:
  "history (snd (commit failingSecretCommit ''configmap.v1..yaml'' ''operator''
                   ''configmap.v1..yaml added'' stagedSecret)) \<noteq> history stagedSecret \<and>
   (\<exists>c. history (snd (commit failingSecretCommit ''configmap.v1..yaml'' ''operator''
                   ''configmap.v1..yaml added'' stagedSecret)) = [c] \<and>
        cmessage c = ''configmap.v1..yaml added'' \<and>
        map_of (ctree c) ''configmap.v1..yaml'' = Some ''data: 1'' \<and>
        map_of (ctree c) ''secret.v1..yaml'' = Some ''s'')"
proof -
  have n: "\<not> IsClean (statusOf stagedSecret)"
    by (simp add: IsClean_iff stagedSecret_eval headTree_def exI [of _ "''secret.v1..yaml''"])
  have h: "history (snd (commit failingSecretCommit ''configmap.v1..yaml'' ''operator''
                   ''configmap.v1..yaml added'' stagedSecret)) \<noteq> history stagedSecret"
    by (simp add: commit_result n failingSecretCommit_def testEnv_def failCall_def)
  from commit_all_folds_tracked_changes [OF h] h show ?thesis
    by (auto simp: stagedSecret_eval)
qed

subsection \<open>Events that change nothing\<close>

lemma headTree_updates [simp]:
  "headTree (s\<lparr>trace := t\<rparr>) = headTree s"
  "headTree (s\<lparr>infoRefs := i\<rparr>) = headTree s"
  "headTree (s\<lparr>refs := r\<rparr>) = headTree s"
  "headTree (s\<lparr>index := x\<rparr>) = headTree s"
  "headTree (klog c s) = headTree s"
  by (simp_all add: headTree_def klog_def)

lemma statusOf_updates [simp]:
  "statusOf (s\<lparr>infoRefs := i\<rparr>) = statusOf s"
  "statusOf (s\<lparr>refs := r\<rparr>) = statusOf s"
  "statusOf (klog c s) = statusOf s"
  by (simp_all add: statusOf_def knownPaths_def fileStatus_def headTree_def klog_def)

lemma history_klog [simp]: "history (klog c s) = history s"
  by (simp add: klog_def)

lemma write_keeps:
  assumes "write' env name content s = (r, s1)"
  shows "history s1 = history s" "index s1 = index s" "headTree s1 = headTree s"
  using write_frame [OF assms] by (simp_all add: sameRepository_def headTree_def)

lemma write_same_clean:
  assumes w: "write' env name content s = (None, s1)" and c: "IsClean (statusOf s)"
  shows "IsClean (statusOf s1) \<longleftrightarrow> map_of (headTree s) name = Some content"
  using c write_lookup [OF w] write_keeps [OF w]
  by (auto simp: IsClean_iff)

lemma lastTree_snoc [simp]: "lastTree (hs @ [c]) = ctree c"
  by (cases hs) simp_all

lemma headTree_history [simp]: "headTree (s\<lparr>history := h\<rparr>) = lastTree h"
  by (simp add: headTree_def)

lemma commit_after_write:
  assumes nofail: "\<forall>c n. \<not> fails env c n"
    and w: "write' env name content s = (None, s1)"
    and c: "IsClean (statusOf s)"
  shows "IsClean (statusOf (snd (commit env name component message s1)))"
    and "map_of (headTree (snd (commit env name component message s1))) name = Some content"
    and "history (snd (commit env name component message s1)) =
           (if map_of (headTree s) name = Some content then history s
            else history s @ [commitObject env name component message s1])"
proof -
  note k = write_keeps [OF w] and l = write_lookup [OF w] and sc = write_same_clean [OF w c]
  have cl: "map_of (headTree s) p = map_of (index s) p \<and> map_of (index s) p = map_of (files s) p" for p
    using c by (simp add: IsClean_iff)
  have t: "map_of (ctree (commitObject env name component message s1)) p = map_of (files s1) p" for p
    using cl [of p] l [of p] l [of name] k by (auto simp: commitObject_tree)
  show "IsClean (statusOf (snd (commit env name component message s1)))"
  proof (cases "IsClean (statusOf s1)")
    case True
    then show ?thesis using nofail by (simp add: commit_result)
  next
    case False
    then show ?thesis using nofail
      by (simp add: commit_result IsClean_iff t)
  qed
  show "map_of (headTree (snd (commit env name component message s1))) name = Some content"
  proof (cases "IsClean (statusOf s1)")
    case True
    then show ?thesis using nofail sc k by (simp add: commit_result)
  next
    case False
    then show ?thesis using nofail l [of name]
      by (simp add: commit_result t)
  qed
  show "history (snd (commit env name component message s1)) =
           (if map_of (headTree s) name = Some content then history s
            else history s @ [commitObject env name component message s1])"
    using nofail sc k by (simp add: commit_result)
qed

lemma publish_tail:
  "history (snd (case updateRefsFile env s3 of
        (Panic, s4) \<Rightarrow> (Panic, s4)
      | (Return _, s4) \<Rightarrow> (Return (), klog i s4))) = history s3"
  "statusOf (snd (case updateRefsFile env s3 of
        (Panic, s4) \<Rightarrow> (Panic, s4)
      | (Return _, s4) \<Rightarrow> (Return (), klog i s4))) = statusOf s3"
  "headTree (snd (case updateRefsFile env s3 of
        (Panic, s4) \<Rightarrow> (Panic, s4)
      | (Return _, s4) \<Rightarrow> (Return (), klog i s4))) = headTree s3"
  by (simp_all add: updateRefsFile_result)

lemma OnAdd_keeps:
  assumes "decodeUnstructuredObject env obj = Return (name, content, None)"
    and "write' env name content s = (None, s1)"
  shows "history (snd (OnAdd env obj s)) =
           history (snd (commit env name ''operator'' (name @ '' added'') s1))"
    and "statusOf (snd (OnAdd env obj s)) =
           statusOf (snd (commit env name ''operator'' (name @ '' added'') s1))"
    and "headTree (snd (OnAdd env obj s)) =
           headTree (snd (commit env name ''operator'' (name @ '' added'') s1))"
  using assms
  by (auto simp: OnAdd_def Let_def publish_tail split: prod.splits option.splits)

lemma OnUpdate_keeps:
  assumes "decodeUnstructuredObject env obj = Return (name, content, None)"
    and "write' env name content s = (None, s1)"
  shows "history (snd (OnUpdate env old obj s)) =
           history (snd (commit env name ''operator'' (name @ '' modified'') s1))"
    and "statusOf (snd (OnUpdate env old obj s)) =
           statusOf (snd (commit env name ''operator'' (name @ '' modified'') s1))"
    and "headTree (snd (OnUpdate env old obj s)) =
           headTree (snd (commit env name ''operator'' (name @ '' modified'') s1))"
  using assms
  by (auto simp: OnUpdate_def Let_def publish_tail split: prod.splits option.splits)

lemma write_total:
  "\<forall>c n. \<not> fails env c n \<Longrightarrow>
   write' env name content s = (None, snd (write' env name content s))"
  using write_succeeds [of env name content s] by (simp add: prod_eq_iff)

lemma OnAdd_clean:
  assumes nofail: "\<forall>c n. \<not> fails env c n"
    and dec: "decodeUnstructuredObject env obj = Return (name, content, None)"
    and c: "IsClean (statusOf s)"
  shows "IsClean (statusOf (snd (OnAdd env obj s)))"
    and "map_of (headTree (snd (OnAdd env obj s))) name = Some content"
    and "length (history (snd (OnAdd env obj s))) =
           (if map_of (headTree s) name = Some content then length (history s)
            else Suc (length (history s)))"
  using commit_after_write [OF nofail write_total [OF nofail] c,
      where component = "''operator''" and message = "name @ '' added''"]
    OnAdd_keeps [OF dec write_total [OF nofail]]
  by simp_all

lemma OnUpdate_clean:
  assumes nofail: "\<forall>c n. \<not> fails env c n"
    and dec: "decodeUnstructuredObject env obj = Return (name, content, None)"
    and c: "IsClean (statusOf s)"
  shows "IsClean (statusOf (snd (OnUpdate env old obj s)))"
    and "map_of (headTree (snd (OnUpdate env old obj s))) name = Some content"
    and "length (history (snd (OnUpdate env old obj s))) =
           (if map_of (headTree s) name = Some content then length (history s)
            else Suc (length (history s)))"
  using commit_after_write [OF nofail write_total [OF nofail] c,
      where component = "''operator''" and message = "name @ '' modified''"]
    OnUpdate_keeps [OF dec write_total [OF nofail]]
  by simp_all

lemma skip_on_same:
  assumes c: "IsClean (statusOf s)" and same: "map_of (headTree s) name = Some content"
    and w: "write' env name content s = (None, s1)"
    and f: "\<not> fails env CallWorktree (length (trace s1))"
       "\<not> fails env CallStatus (Suc (length (trace s1)))"
  shows "commit env name component message s1 =
           (('''', None), s1\<lparr>trace := trace s1 @ [CallWorktree, CallStatus]\<rparr>)"
    and "history s1 = history s"
  using write_same_clean [OF w c] same f write_keeps [OF w] by (simp_all add: commit_result)

text \<open>
  Claim C1, as the code has it. Take a store whose status is clean and an object that
  decodes to \<open>name\<close> and \<open>content\<close>. If the last commit holds exactly \<open>content\<close> under
  \<open>name\<close>, then after the working-tree write the commit writer (its \<^verbatim>\<open>Worktree()\<close> and
  \<^verbatim>\<open>Status()\<close> calls succeeding) finds the status clean, creates no commit and returns the
  empty identifier and no error. And when no library call fails, one event for the object
  adds exactly one commit if the content differs from the committed one and none if it is
  the same, and a second event for the same object right after it adds none.
\<close>

theorem identical_content_no_commit:
  assumes "IsClean (statusOf s)"
    and "decodeUnstructuredObject env obj = Return (name, content, None)"
  shows
  "(map_of (headTree s) name = Some content \<and> write' env name content s = (None, s1) \<and>
    \<not> fails env CallWorktree (length (trace s1)) \<and>
    \<not> fails env CallStatus (Suc (length (trace s1))) \<longrightarrow>
      commit env name component message s1 =
        (('''', None), s1\<lparr>trace := trace s1 @ [CallWorktree, CallStatus]\<rparr>) \<and>
      history s1 = history s) \<and>
   ((\<forall>c n. \<not> fails env c n) \<longrightarrow>
      length (history (snd (OnAdd env obj s))) =
        (if map_of (headTree s) name = Some content then length (history s)
         else Suc (length (history s))) \<and>
      length (history (snd (OnUpdate env old obj s))) =
        (if map_of (headTree s) name = Some content then length (history s)
         else Suc (length (history s))) \<and>
      history (snd (OnUpdate env old' obj (snd (OnAdd env obj s)))) =
        history (snd (OnAdd env obj s)) \<and>
      history (snd (OnUpdate env old' obj (snd (OnUpdate env old obj s)))) =
        history (snd (OnUpdate env old obj s)))"
proof (intro conjI impI)
  assume a: "map_of (headTree s) name = Some content \<and> write' env name content s = (None, s1) \<and>
    \<not> fails env CallWorktree (length (trace s1)) \<and>
    \<not> fails env CallStatus (Suc (length (trace s1)))"
  show "commit env name component message s1 =
        (('''', None), s1\<lparr>trace := trace s1 @ [CallWorktree, CallStatus]\<rparr>)"
    using skip_on_same(1) [OF assms(1)] a by blast
  show "history s1 = history s"
    using skip_on_same(2) [OF assms(1)] a by blast
next
  assume nofail: "\<forall>c n. \<not> fails env c n"
  note A = OnAdd_clean [OF nofail assms(2) assms(1)]
  note U = OnUpdate_clean [OF nofail assms(2) assms(1), of old]
  show "length (history (snd (OnAdd env obj s))) =
        (if map_of (headTree s) name = Some content then length (history s)
         else Suc (length (history s)))" by (rule A(3))
  show "length (history (snd (OnUpdate env old obj s))) =
        (if map_of (headTree s) name = Some content then length (history s)
         else Suc (length (history s)))" by (rule U(3))
  have w: "write' env name content t = (None, snd (write' env name content t))" for t
    by (rule write_total [OF nofail])
  show "history (snd (OnUpdate env old' obj (snd (OnAdd env obj s)))) =
        history (snd (OnAdd env obj s))"
    using OnUpdate_keeps(1) [OF assms(2) w, of old' "snd (OnAdd env obj s)"]
      skip_on_same [OF A(1) A(2) w] nofail by simp
  show "history (snd (OnUpdate env old' obj (snd (OnUpdate env old obj s)))) =
        history (snd (OnUpdate env old obj s))"
    using OnUpdate_keeps(1) [OF assms(2) w, of old' "snd (OnUpdate env old obj s)"]
      skip_on_same [OF U(1) U(2) w] nofail by simp
qed

text \<open>
  Against the claim as stated: the secret's commit fails and leaves its file staged; the
  next event carries the config map with the very content of the last commit, and the
  commit writer, finding the status not clean, creates a commit for it.
\<close>

theorem identical_content_commits_counterexample:
  "map_of (headTree pendingSecret) ''configmap.v1..yaml'' = Some ''data: 1'' \<and>
   decodeUnstructuredObject failingSecretCommit (configMap ''data: 1'') =
     Return (''configmap.v1..yaml'', ''data: 1'', None) \<and>
   map cmessage (history pendingSecret) = [''configmap.v1..yaml added''] \<and>
   fst (OnUpdate failingSecretCommit (configMap ''data: 1'') (configMap ''data: 1'') pendingSecret)
     = Return () \<and>
   map cmessage (history (snd (OnUpdate failingSecretCommit (configMap ''data: 1'')
                                 (configMap ''data: 1'') pendingSecret)))
     = [''configmap.v1..yaml added'', ''configmap.v1..yaml modified'']"
  by (simp add: pendingSecret_def configMapThenSecret_def run_defs)

theorem identical_content_no_commit_witness:
  "IsClean (statusOf emptyRepository) \<and>
   decodeUnstructuredObject okEnv (configMap ''data: 1'') =
     Return (''configmap.v1..yaml'', ''data: 1'', None) \<and>
   (\<forall>c n. \<not> fails okEnv c n) \<and>
   length (history (snd (OnAdd okEnv (configMap ''data: 1'') emptyRepository))) = 1 \<and>
   history (snd (OnUpdate okEnv (configMap ''data: 0'') (configMap ''data: 1'')
                  (snd (OnAdd okEnv (configMap ''data: 1'') emptyRepository)))) =
     history (snd (OnAdd okEnv (configMap ''data: 1'') emptyRepository)) \<and>
   IsClean (statusOf committedOnce) \<and>
   map_of (headTree committedOnce) ''configmap.v1..yaml'' = Some ''data: 1'' \<and>
   fst (write' okEnv ''configmap.v1..yaml'' ''data: 1'' committedOnce) = None \<and>
   fst (commit okEnv ''configmap.v1..yaml'' ''operator'' ''configmap.v1..yaml modified''
          (snd (write' okEnv ''configmap.v1..yaml'' ''data: 1'' committedOnce))) = ('''', None)"
proof -
  have nofail: "\<forall>c n. \<not> fails okEnv c n" by simp
  have d: "decodeUnstructuredObject okEnv (configMap ''data: 1'') =
     Return (''configmap.v1..yaml'', ''data: 1'', None)"
    by (simp add: handler_defs env_defs)
  have h0: "map_of (headTree emptyRepository) ''configmap.v1..yaml'' \<noteq> Some ''data: 1''"
    by (simp add: headTree_def emptyRepository_def)
  note t1 = identical_content_no_commit [OF status_emptyRepository d,
      where old = "configMap ''data: 0''" and old' = "configMap ''data: 0''",
      THEN conjunct2, THEN mp, OF nofail]
  have a: "length (history (snd (OnAdd okEnv (configMap ''data: 1'') emptyRepository))) = 1"
    using t1 h0 by (simp add: emptyRepository_def)
  have b: "history (snd (OnUpdate okEnv (configMap ''data: 0'') (configMap ''data: 1'')
                  (snd (OnAdd okEnv (configMap ''data: 1'') emptyRepository)))) =
     history (snd (OnAdd okEnv (configMap ''data: 1'') emptyRepository))"
    using t1 by blast
  have c: "IsClean (statusOf committedOnce)"
    unfolding committedOnce_def by (rule OnAdd_clean(1) [OF nofail d status_emptyRepository])
  have s: "map_of (headTree committedOnce) ''configmap.v1..yaml'' = Some ''data: 1''"
    unfolding committedOnce_def by (rule OnAdd_clean(2) [OF nofail d status_emptyRepository])
  have w: "write' okEnv ''configmap.v1..yaml'' ''data: 1'' committedOnce =
      (None, snd (write' okEnv ''configmap.v1..yaml'' ''data: 1'' committedOnce))"
    by (rule write_total [OF nofail])
  have pre: "map_of (headTree committedOnce) ''configmap.v1..yaml'' = Some ''data: 1'' \<and>
      write' okEnv ''configmap.v1..yaml'' ''data: 1'' committedOnce =
        (None, snd (write' okEnv ''configmap.v1..yaml'' ''data: 1'' committedOnce)) \<and>
      \<not> fails okEnv CallWorktree
          (length (trace (snd (write' okEnv ''configmap.v1..yaml'' ''data: 1'' committedOnce)))) \<and>
      \<not> fails okEnv CallStatus
          (Suc (length (trace (snd (write' okEnv ''configmap.v1..yaml'' ''data: 1'' committedOnce)))))"
    using s w by simp
  have "fst (commit okEnv ''configmap.v1..yaml'' ''operator'' ''configmap.v1..yaml modified''
          (snd (write' okEnv ''configmap.v1..yaml'' ''data: 1'' committedOnce))) = ('''', None)"
    using identical_content_no_commit [OF c d, THEN conjunct1, THEN mp, OF pre,
        of "''operator''" "''configmap.v1..yaml modified''"]
    by simp
  then show ?thesis using a b c s d write_succeeds [OF nofail] status_emptyRepository by simp
qed

subsection \<open>The history only grows, one event at a time\<close>

lemma decode_name:
  "\<exists>content err. decodeUnstructuredObject env (Unstructured u) =
     Return (resourceFilename (gvk u), content, err)"
  by (simp add: decodeUnstructuredObject_def Let_def split: sum.splits)

lemma commit_history:
  "history (snd (commit env name component message s)) = history s \<or>
   (\<exists>c. history (snd (commit env name component message s)) = history s @ [c] \<and>
        cmessage c = message)"
  by (simp add: commit_result commitObject_def)

lemma OnAdd_history:
  "history (snd (OnAdd env obj s)) = history s \<or>
   (\<exists>c. history (snd (OnAdd env obj s)) = history s @ [c] \<and>
        cmessage c = messageOf (Observed obj))"
proof (cases obj)
  case (Foreign t)
  then show ?thesis by (simp add: OnAdd_def decodeUnstructuredObject_def)
next
  case (Unstructured u)
  obtain content err where d: "decodeUnstructuredObject env obj =
      Return (resourceFilename (gvk u), content, err)"
    using Unstructured decode_name [of env u] by blast
  obtain r s1 where w: "write' env (resourceFilename (gvk u)) content s = (r, s1)" by force
  show ?thesis
  proof (cases "err = None \<and> r = None")
    case True
    then show ?thesis
      using OnAdd_keeps(1) [of env obj "resourceFilename (gvk u)" content s s1] d w
        write_keeps(1) [OF w]
        commit_history [of env "resourceFilename (gvk u)" "''operator''"
          "resourceFilename (gvk u) @ '' added''" s1] Unstructured
      by auto
  next
    case False
    then have "history (snd (OnAdd env obj s)) = history s"
      using d w write_keeps(1) [OF w] by (cases err; cases r) (simp_all add: OnAdd_def)
    then show ?thesis by simp
  qed
qed

lemma OnUpdate_history:
  "history (snd (OnUpdate env old obj s)) = history s \<or>
   (\<exists>c. history (snd (OnUpdate env old obj s)) = history s @ [c] \<and>
        cmessage c = messageOf (Changed old obj))"
proof (cases obj)
  case (Foreign t)
  then show ?thesis by (simp add: OnUpdate_def decodeUnstructuredObject_def)
next
  case (Unstructured u)
  obtain content err where d: "decodeUnstructuredObject env obj =
      Return (resourceFilename (gvk u), content, err)"
    using Unstructured decode_name [of env u] by blast
  obtain r s1 where w: "write' env (resourceFilename (gvk u)) content s = (r, s1)" by force
  show ?thesis
  proof (cases "err = None \<and> r = None")
    case True
    then show ?thesis
      using OnUpdate_keeps(1) [of env obj "resourceFilename (gvk u)" content s s1] d w
        write_keeps(1) [OF w]
        commit_history [of env "resourceFilename (gvk u)" "''operator''"
          "resourceFilename (gvk u) @ '' modified''" s1] Unstructured
      by auto
  next
    case False
    then have "history (snd (OnUpdate env old obj s)) = history s"
      using d w write_keeps(1) [OF w] by (cases err; cases r) (simp_all add: OnUpdate_def)
    then show ?thesis by simp
  qed
qed

lemma OnDelete_keeps:
  assumes "decodeUnstructuredObject env obj = Return (name, content, None)"
    and "delete env name s = (None, s1)"
  shows "history (snd (OnDelete env obj s)) =
           history (snd (commit env name ''operator'' (quote name @ '' removed'') s1))"
  using assms
  by (auto simp: OnDelete_def Let_def publish_tail split: prod.splits option.splits)

lemma OnDelete_history:
  "history (snd (OnDelete env obj s)) = history s \<or>
   (\<exists>c. history (snd (OnDelete env obj s)) = history s @ [c] \<and>
        cmessage c = messageOf (Removed obj))"
proof (cases obj)
  case (Foreign t)
  then show ?thesis by (simp add: OnDelete_def decodeUnstructuredObject_def)
next
  case (Unstructured u)
  obtain content err where d: "decodeUnstructuredObject env obj =
      Return (resourceFilename (gvk u), content, err)"
    using Unstructured decode_name [of env u] by blast
  obtain r s1 where w: "delete env (resourceFilename (gvk u)) s = (r, s1)" by force
  have k: "history s1 = history s"
    using delete_frame [OF w] by (simp add: sameRepository_def)
  show ?thesis
  proof (cases "err = None \<and> r = None")
    case True
    then show ?thesis
      using OnDelete_keeps [of env obj "resourceFilename (gvk u)" content s s1] d w k
        commit_history [of env "resourceFilename (gvk u)" "''operator''"
          "quote (resourceFilename (gvk u)) @ '' removed''" s1] Unstructured
      by auto
  next
    case False
    then have "history (snd (OnDelete env obj s)) = history s"
      using d w k by (cases err; cases r) (simp_all add: OnDelete_def)
    then show ?thesis by simp
  qed
qed

lemma handle_history:
  "history (snd (handle env e s)) = history s \<or>
   (\<exists>c. history (snd (handle env e s)) = history s @ [c] \<and> cmessage c = messageOf e)"
  using OnAdd_history OnUpdate_history OnDelete_history by (cases e) simp_all

text \<open>
  Claim C6. Whatever the events and whatever fails, a run of the handlers only appends to
  the history, and the messages of the commits it appends are, in the same order, those
  of a subsequence of the events: every event contributes at most its own commit, after
  the commits of all earlier events, and events that skip or fail contribute none.
\<close>

theorem commits_follow_events:
  "\<exists>new. history (snd (run env es s)) = history s @ new \<and>
         subseq (map cmessage new) (map messageOf es)"
proof (induction es arbitrary: s)
  case Nil
  show ?case by simp
next
  case (Cons e es)
  obtain r s' where h: "handle env e s = (r, s')" by force
  obtain new where n: "history (snd (run env es s')) = history s' @ new"
    "subseq (map cmessage new) (map messageOf es)"
    using Cons.IH [of s'] by blast
  have step: "history s' = history s \<or>
      (\<exists>c. history s' = history s @ [c] \<and> cmessage c = messageOf e)"
    using handle_history [of env e s] h by simp
  show ?case
  proof (cases r)
    case Panic
    then have "run env (e # es) s = (Panic, s')" using h by simp
    then show ?thesis using step by (auto intro: exI [of _ "[]"])
  next
    case (Return u)
    then have "run env (e # es) s = run env es s'" using h by simp
    then show ?thesis using step n by (auto intro: exI [of _ new])
  qed
qed

theorem commits_follow_events_witness:
  "\<exists>new. history (snd (run okEnv fourEvents emptyRepository)) = history emptyRepository @ new \<and>
         subseq (map cmessage new) (map messageOf fourEvents) \<and>
         map messageOf fourEvents =
           [''configmap.v1..yaml added'', ''configmap.v1..yaml modified'',
            ''configmap.v1..yaml modified'', quote ''configmap.v1..yaml'' @ '' removed''] \<and>
         map cmessage new =
           [''configmap.v1..yaml added'', ''configmap.v1..yaml modified'',
            quote ''configmap.v1..yaml'' @ '' removed'']"
proof -
  have h: "map cmessage (history (snd (run okEnv fourEvents emptyRepository))) =
           [''configmap.v1..yaml added'', ''configmap.v1..yaml modified'',
            quote ''configmap.v1..yaml'' @ '' removed'']"
    by (simp add: fourEvents_def run_defs)
  have m: "map messageOf fourEvents =
           [''configmap.v1..yaml added'', ''configmap.v1..yaml modified'',
            ''configmap.v1..yaml modified'', quote ''configmap.v1..yaml'' @ '' removed'']"
    by (simp add: fourEvents_def handler_defs)
  obtain new where n: "history (snd (run okEnv fourEvents emptyRepository))
        = history emptyRepository @ new"
      "subseq (map cmessage new) (map messageOf fourEvents)"
    using commits_follow_events [of okEnv fourEvents emptyRepository] by blast
  have "history emptyRepository = []" by (simp add: emptyRepository_def)
  then have k: "map cmessage new =
           [''configmap.v1..yaml added'', ''configmap.v1..yaml modified'',
            quote ''configmap.v1..yaml'' @ '' removed'']"
    using h unfolding n(1) by simp
  show ?thesis by (rule exI [of _ new]) (intro conjI n m k)
qed

end
